theory Spec2Isabelle
  imports Main
begin

section \<open>The bridge watcher: data model\<close>

text \<open>
  The repository holds two services that poll a source chain (L2) for events of a bridge
  contract, mirror them into a Supabase table and pay the transfers out on a destination
  chain (L1): the minimal watcher (\<^verbatim>\<open>watcher.js\<close>) and the unified watcher and executor,
  which also retries the payout and completes the transfer on L2 with a signature.

  Both are embedded as state transformers on a \<open>world\<close>: the block cursor, the table
  \<^verbatim>\<open>bridged_events\<close> and the sequence of external calls made so far. Whatever the chains
  and the store answer is not decided by the program: every answer is read from an
  environment \<open>env\<close>, indexed by the number of external calls already made, so that a
  theorem for all environments covers every pattern of failures and every contract
  behaviour. A JavaScript exception is a result value; a \<^verbatim>\<open>{data, error}\<close> reply of the
  store is an error value.
\<close>

type_synonym hex = string

text \<open>The decoded arguments of \<^verbatim>\<open>BridgeInitiated\<close> and \<^verbatim>\<open>Refunded\<close>, with the block number.\<close>

record bridge_event =
  ev_user :: hex
  ev_originalAmount :: nat
  ev_bridgedAmount :: nat
  ev_transferId :: hex
  ev_timestamp :: nat
  ev_blockNumber :: nat

record refund_event =
  rf_transferId :: hex
  rf_user :: hex
  rf_amount :: nat
  rf_blockNumber :: nat

text \<open>The tuple returned by \<^verbatim>\<open>getTransfer\<close>; status 0 is Pending, 1 Completed, 2 Refunded.\<close>

record transfer =
  tr_user :: hex
  tr_originalAmount :: nat
  tr_bridgedAmount :: nat
  tr_timestamp :: nat
  tr_status :: nat

text \<open>
  Hashing and signing are symbolic: \<open>Keccak256 vs\<close> is
  \<^verbatim>\<open>keccak256(solidityPacked(types, vs))\<close>, each value tagged with its Solidity type, and
  \<open>PersonalSign k d\<close> is \<^verbatim>\<open>new Wallet(k).signMessage(getBytes(d))\<close>.
\<close>

datatype sol_value = Bytes32 hex | Address hex | Uint256 nat

datatype digest = Keccak256 "sol_value list"

datatype signature = PersonalSign hex digest

text \<open>A row of the table \<^verbatim>\<open>bridged_events\<close>.\<close>

record row =
  tx_id :: hex
  address :: hex
  bridged_amount :: string
  status :: string
  block_number :: nat
  timestamp :: string
  l1_block_number :: "nat option"
  signature1 :: "signature option"

datatype event_kind = BridgeInitiated | Refunded

text \<open>The external calls, in the order the program makes them.\<close>

datatype action =
    GetBlockNumber
  | QueryFilter event_kind nat nat
  | Select hex
  | GetTransfer hex
  | Insert row
  | Payout hex hex nat
  | Sleep nat
  | Complete hex "signature list" "hex list"
  | UpdateComplete hex nat signature
  | UpdateRefunded hex

record world =
  lastCheckedBlock :: nat
  store :: "row list"
  trace :: "action list"

text \<open>What a submitted transaction can do: the send throws, the wait throws, or it is mined.\<close>

datatype tx_result = SendFailed | WaitFailed hex | Confirmed hex nat

datatype store_error = Conflict | StoreError

text \<open>
  The answers of the outside world, each indexed by the time of the call. For the calls of
  the chain client that the program awaits (\<^verbatim>\<open>getBlockNumber\<close>, \<^verbatim>\<open>queryFilter\<close> with its
  range, \<^verbatim>\<open>getTransfer\<close>) \<open>None\<close> is a thrown exception. The three store fields are the
  \<^verbatim>\<open>error\<close> of the reply. \<open>signThrows\<close> says whether building the wallet or signing
  throws.
\<close>

record env =
  blockNumberAt :: "nat \<Rightarrow> nat option"
  logsBridge :: "nat \<Rightarrow> nat \<Rightarrow> nat \<Rightarrow> bridge_event list option"
  logsRefund :: "nat \<Rightarrow> nat \<Rightarrow> nat \<Rightarrow> refund_event list option"
  selectError :: "nat \<Rightarrow> bool"
  insertError :: "nat \<Rightarrow> store_error option"
  updateError :: "nat \<Rightarrow> bool"
  transferAt :: "nat \<Rightarrow> hex \<Rightarrow> transfer option"
  payoutTx :: "nat \<Rightarrow> tx_result"
  signThrows :: "nat \<Rightarrow> bool"
  completeTx :: "nat \<Rightarrow> tx_result"

record config =
  PRIVATE_KEY :: hex
  SIGNER_KEY :: hex
  L2_ADDRESS :: hex
  L1_ADDRESS :: hex

definition AUTHORIZED_SIGNER :: hex where
  "AUTHORIZED_SIGNER = ''0x9e09fd3f7Bf43E68A1C813e02d0f5da519AaEbEd''"

text \<open>The time of the next external call, and the recording of one.\<close>

definition now :: "world \<Rightarrow> nat" where
  "now w = length (trace w)"

definition emit :: "action \<Rightarrow> world \<Rightarrow> world" where
  "emit a w = w\<lparr>trace := trace w @ [a]\<rparr>"

text \<open>\<^verbatim>\<open>toString()\<close> of a non-negative integer: its decimal digits.\<close>

fun toString :: "nat \<Rightarrow> string" where
  "toString n =
     (if n < 10 then [char_of (48 + n)]
      else toString (n div 10) @ [char_of (48 + n mod 10)])"

declare toString.simps [simp del]

section \<open>The chunked log scan\<close>

text \<open>
  \<^verbatim>\<open>
  while (fromBlock <= currentBlock) {
    const toBlock = Math.min(fromBlock + 499, currentBlock);
    const chunkEvents = await l2.queryFilter(filter, fromBlock, toBlock);
    events.push(...chunkEvents);
    fromBlock = toBlock + 1;
  }
  \<close>
  The loop is the same in both services and for both event kinds. A query that throws
  ends the loop with the exception (\<open>None\<close>).
\<close>

function scan :: "(nat \<Rightarrow> nat \<Rightarrow> nat \<Rightarrow> 'e list option) \<Rightarrow> event_kind \<Rightarrow> nat \<Rightarrow> nat
    \<Rightarrow> 'e list \<Rightarrow> world \<Rightarrow> 'e list option \<times> world" where
  "scan q kind fromBlock currentBlock events w =
     (if fromBlock \<le> currentBlock then
        let toBlock = min (fromBlock + 499) currentBlock;
            w1 = emit (QueryFilter kind fromBlock toBlock) w
        in case q (now w) fromBlock toBlock of
             None \<Rightarrow> (None, w1)
           | Some chunkEvents \<Rightarrow>
               scan q kind (toBlock + 1) currentBlock (events @ chunkEvents) w1
      else (Some events, w))"
  by pat_completeness auto
termination
  by (relation "measure (\<lambda>(q, kind, fromBlock, currentBlock, events, w). currentBlock + 1 - fromBlock)")
     auto

declare scan.simps [simp del]

text \<open>The sub-ranges the loop asks for when no query throws.\<close>

function chunks :: "nat \<Rightarrow> nat \<Rightarrow> (nat \<times> nat) list" where
  "chunks fromBlock currentBlock =
     (if fromBlock \<le> currentBlock then
        let toBlock = min (fromBlock + 499) currentBlock
        in (fromBlock, toBlock) # chunks (toBlock + 1) currentBlock
      else [])"
  by pat_completeness auto
termination
  by (relation "measure (\<lambda>(fromBlock, currentBlock). currentBlock + 1 - fromBlock)") auto

declare chunks.simps [simp del]

section \<open>The record store\<close>

text \<open>
  The Supabase client answers \<^verbatim>\<open>{data, error}\<close>. Whether a call errs is the environment's
  choice; a call that does not err acts on the table: \<^verbatim>\<open>select().eq('tx_id', id)\<close> returns
  the rows with that identifier, \<^verbatim>\<open>insert\<close> appends the row, \<^verbatim>\<open>update().eq('tx_id', id)\<close>
  rewrites every row with that identifier. The table of the model holds the rows this
  process has seen or written. An insert can also be refused because of a row that another
  writer added after the existence check: the model has the refusal (\<open>Conflict\<close>), not
  that row. The program does not look at the kind of the error.
\<close>

definition select_tx_id :: "env \<Rightarrow> hex \<Rightarrow> world \<Rightarrow> row list option \<times> world" where
  "select_tx_id e transferId w =
     (if selectError e (now w) then None
      else Some (filter (\<lambda>r. tx_id r = transferId) (store w)),
      emit (Select transferId) w)"

definition insert_row :: "env \<Rightarrow> row \<Rightarrow> world \<Rightarrow> store_error option \<times> world" where
  "insert_row e r w =
     (case insertError e (now w) of
        Some err \<Rightarrow> (Some err, emit (Insert r) w)
      | None \<Rightarrow> (None, emit (Insert r) (w\<lparr>store := store w @ [r]\<rparr>)))"

definition update_eq :: "hex \<Rightarrow> (row \<Rightarrow> row) \<Rightarrow> row list \<Rightarrow> row list" where
  "update_eq transferId f rows = map (\<lambda>r. if tx_id r = transferId then f r else r) rows"

section \<open>The unified watcher and executor\<close>

datatype outcome = Done | Threw

text \<open>
  \<^verbatim>\<open>signMessage\<close>: the digest is the hash of the packed transfer identifier, user, amount
  and contract address, in this order; an exception is logged and thrown again.
\<close>

definition rawHash :: "hex \<Rightarrow> hex \<Rightarrow> nat \<Rightarrow> hex \<Rightarrow> digest" where
  "rawHash transferId user bridgedAmount contractAddress =
     (let transferIdBytes = (if take 2 transferId = ''0x'' then transferId else ''0x'' @ transferId)
      in Keccak256 [Bytes32 transferIdBytes, Address user, Uint256 bridgedAmount,
                    Address contractAddress])"

definition signMessage :: "config \<Rightarrow> env \<Rightarrow> nat \<Rightarrow> hex \<Rightarrow> hex \<Rightarrow> nat \<Rightarrow> hex \<Rightarrow> signature option" where
  "signMessage cfg e t transferId user bridgedAmount contractAddress =
     (if signThrows e t then None
      else Some (PersonalSign (SIGNER_KEY cfg)
                   (rawHash transferId user bridgedAmount contractAddress)))"

text \<open>\<^verbatim>\<open>callCompleteOnL2\<close>: the transaction hash, or \<open>None\<close> when the send or the wait throws.\<close>

definition callCompleteOnL2 :: "env \<Rightarrow> hex \<Rightarrow> hex \<Rightarrow> nat \<Rightarrow> signature \<Rightarrow> world \<Rightarrow> hex option \<times> world" where
  "callCompleteOnL2 e transferId user bridgedAmount sg w =
     (let w1 = emit (Complete transferId [sg] [AUTHORIZED_SIGNER]) w
      in case completeTx e (now w) of
           Confirmed h b \<Rightarrow> (Some h, w1)
         | WaitFailed h \<Rightarrow> (None, w1)
         | SendFailed \<Rightarrow> (None, w1))"

text \<open>\<^verbatim>\<open>updateSupabaseComplete\<close>: \<open>False\<close> when the store errs, which the function throws.\<close>

definition updateSupabaseComplete :: "env \<Rightarrow> hex \<Rightarrow> nat \<Rightarrow> hex \<Rightarrow> signature \<Rightarrow> world \<Rightarrow> bool \<times> world" where
  "updateSupabaseComplete e transferId l1BlockNumber l2TxHash sg w =
     (let w1 = emit (UpdateComplete transferId l1BlockNumber sg) w
      in if updateError e (now w) then (False, w1)
         else (True, w1\<lparr>store := update_eq transferId
                  (\<lambda>r. r\<lparr>status := ''Completed'', l1_block_number := Some l1BlockNumber,
                          signature1 := Some sg\<rparr>) (store w1)\<rparr>))"

text \<open>
  \<^verbatim>\<open>processPayoutCompletion\<close>. The whole body is inside \<^verbatim>\<open>try\<close>, so the function never
  throws; the result names the way it ended: the three early \<^verbatim>\<open>return\<close>s of the status
  double check, the normal end, or the \<^verbatim>\<open>catch\<close>.
\<close>

datatype completion =
  Finished | SkippedCompleted | SkippedRefunded | SkippedUnknown | Caught

definition processPayoutCompletion ::
    "config \<Rightarrow> env \<Rightarrow> hex \<Rightarrow> hex \<Rightarrow> nat \<Rightarrow> nat \<Rightarrow> world \<Rightarrow> completion \<times> world" where
  "processPayoutCompletion cfg e transferId user bridgedAmount payoutBlockNumber w =
     (let w1 = emit (GetTransfer transferId) w
      in case transferAt e (now w) transferId of
           None \<Rightarrow> (Caught, w1)
         | Some transfer \<Rightarrow>
            (case signMessage cfg e (now w1) transferId (tr_user transfer)
                    (tr_bridgedAmount transfer) (L2_ADDRESS cfg) of
               None \<Rightarrow> (Caught, w1)
             | Some sg \<Rightarrow>
                (let w2 = emit (GetTransfer transferId) w1
                 in case transferAt e (now w1) transferId of
                      None \<Rightarrow> (Caught, w2)
                    | Some doubleCheck \<Rightarrow>
                        if tr_status doubleCheck = 1 then (SkippedCompleted, w2)
                        else if tr_status doubleCheck = 2 then (SkippedRefunded, w2)
                        else if tr_status doubleCheck \<noteq> 0 then (SkippedUnknown, w2)
                        else (case callCompleteOnL2 e transferId user bridgedAmount sg w2 of
                                (None, w3) \<Rightarrow> (Caught, w3)
                              | (Some l2TxHash, w3) \<Rightarrow>
                                 (case updateSupabaseComplete e transferId payoutBlockNumber
                                         l2TxHash sg w3 of
                                    (False, w4) \<Rightarrow> (Caught, w4)
                                  | (True, w4) \<Rightarrow> (Finished, w4))))))"

text \<open>
  The payout retry loop:
  \<^verbatim>\<open>
  let retryCount = 0; const maxRetries = 3; let payoutSuccess = false;
  while (retryCount < maxRetries && !payoutSuccess) {
    try { payoutTx = await l1.payout(...); const receipt = await payoutTx.wait();
          payoutSuccess = true; payoutTx.blockNumber = receipt.blockNumber; }
    catch (err) { retryCount++;
      if (retryCount < maxRetries) { await sleep(Math.pow(2, retryCount) * 1000); } }
  }
  \<close>
  The result is the block number of the receipt when \<^verbatim>\<open>payoutSuccess\<close> is set.
\<close>

definition maxRetries :: nat where
  "maxRetries = 3"

function payoutLoop :: "env \<Rightarrow> hex \<Rightarrow> hex \<Rightarrow> nat \<Rightarrow> nat \<Rightarrow> world \<Rightarrow> nat option \<times> world" where
  "payoutLoop e transferId user bridgedAmount retryCount w =
     (if retryCount < maxRetries then
        let w1 = emit (Payout transferId user bridgedAmount) w
        in case payoutTx e (now w) of
             Confirmed h blockNumber \<Rightarrow> (Some blockNumber, w1)
           | _ \<Rightarrow>
              (let retryCount' = retryCount + 1
               in if retryCount' < maxRetries
                  then payoutLoop e transferId user bridgedAmount retryCount'
                         (emit (Sleep (2 ^ retryCount' * 1000)) w1)
                  else payoutLoop e transferId user bridgedAmount retryCount' w1)
      else (None, w))"
  by pat_completeness auto
termination
  by (relation "measure (\<lambda>(e, transferId, user, bridgedAmount, retryCount, w). maxRetries - retryCount)")
     auto

declare payoutLoop.simps [simp del]

text \<open>
  One iteration of the loop over \<^verbatim>\<open>bridgeEvents\<close>. \<^verbatim>\<open>continue\<close> skips the one second
  delay at the end of the iteration. The call of \<^verbatim>\<open>getTransfer\<close> is not inside a
  \<^verbatim>\<open>try\<close> of the iteration: its exception leaves the loop.
\<close>

definition pending_row :: "bridge_event \<Rightarrow> row" where
  "pending_row event =
     \<lparr>tx_id = ev_transferId event, address = ev_user event,
      bridged_amount = toString (ev_bridgedAmount event), status = ''pending'',
      block_number = ev_blockNumber event, timestamp = toString (ev_timestamp event),
      l1_block_number = None, signature1 = None\<rparr>"

definition processBridgeEvent :: "config \<Rightarrow> env \<Rightarrow> bridge_event \<Rightarrow> world \<Rightarrow> outcome \<times> world" where
  "processBridgeEvent cfg e event w =
     (let transferId = ev_transferId event; user = ev_user event;
          bridgedAmount = ev_bridgedAmount event
      in case select_tx_id e transferId w of
           (None, w1) \<Rightarrow> (Done, w1)
         | (Some existing, w1) \<Rightarrow>
             if length existing > 0 then (Done, w1)
             else (let w2 = emit (GetTransfer transferId) w1
                   in case transferAt e (now w1) transferId of
                        None \<Rightarrow> (Threw, w2)
                      | Some transfer \<Rightarrow>
                          if tr_status transfer = 0 then
                            (let w3 = snd (insert_row e (pending_row event) w2);
                                 (payoutSuccess, w4) = payoutLoop e transferId user bridgedAmount 0 w3;
                                 w5 = (case payoutSuccess of
                                         None \<Rightarrow> w4
                                       | Some payoutBlock \<Rightarrow>
                                           snd (processPayoutCompletion cfg e transferId user
                                                  bridgedAmount payoutBlock w4))
                             in (Done, emit (Sleep 1000) w5))
                          else (Done, emit (Sleep 1000) w2)))"

fun processBridgeEvents :: "config \<Rightarrow> env \<Rightarrow> bridge_event list \<Rightarrow> world \<Rightarrow> outcome \<times> world" where
  "processBridgeEvents cfg e [] w = (Done, w)"
| "processBridgeEvents cfg e (event # rest) w =
     (case processBridgeEvent cfg e event w of
        (Threw, w') \<Rightarrow> (Threw, w')
      | (Done, w') \<Rightarrow> processBridgeEvents cfg e rest w')"

text \<open>One iteration of the loop over \<^verbatim>\<open>refundEvents\<close>; a store error is logged only.\<close>

definition processRefundEvent :: "env \<Rightarrow> refund_event \<Rightarrow> world \<Rightarrow> world" where
  "processRefundEvent e event w =
     (let transferId = rf_transferId event;
          w1 = emit (UpdateRefunded transferId) w
      in if updateError e (now w) then w1
         else w1\<lparr>store := update_eq transferId (\<lambda>r. r\<lparr>status := ''refunded''\<rparr>) (store w1)\<rparr>)"

fun processRefundEvents :: "env \<Rightarrow> refund_event list \<Rightarrow> world \<Rightarrow> world" where
  "processRefundEvents e [] w = w"
| "processRefundEvents e (event # rest) w =
     processRefundEvents e rest (processRefundEvent e event w)"

text \<open>
  The body of the \<^verbatim>\<open>try\<close> block of the interval callback, and the callback: the
  \<^verbatim>\<open>catch\<close> logs the exception and changes nothing.
\<close>

definition poll_try :: "config \<Rightarrow> env \<Rightarrow> world \<Rightarrow> outcome \<times> world" where
  "poll_try cfg e w =
     (let w1 = emit GetBlockNumber w
      in case blockNumberAt e (now w) of
           None \<Rightarrow> (Threw, w1)
         | Some currentBlock \<Rightarrow>
             if currentBlock \<le> lastCheckedBlock w1 then (Done, w1)
             else
               (case scan (logsBridge e) BridgeInitiated (lastCheckedBlock w1 + 1) currentBlock [] w1 of
                  (None, w2) \<Rightarrow> (Threw, w2)
                | (Some bridgeEvents, w2) \<Rightarrow>
                   (case scan (logsRefund e) Refunded (lastCheckedBlock w2 + 1) currentBlock [] w2 of
                      (None, w3) \<Rightarrow> (Threw, w3)
                    | (Some refundEvents, w3) \<Rightarrow>
                       (case processBridgeEvents cfg e bridgeEvents w3 of
                          (Threw, w4) \<Rightarrow> (Threw, w4)
                        | (Done, w4) \<Rightarrow>
                           (Done, (processRefundEvents e refundEvents w4)
                                    \<lparr>lastCheckedBlock := currentBlock\<rparr>)))))"

definition poll :: "config \<Rightarrow> env \<Rightarrow> world \<Rightarrow> world" where
  "poll cfg e w = snd (poll_try cfg e w)"

text \<open>
  \<^verbatim>\<open>getStartingBlock\<close> and the start of \<^verbatim>\<open>main\<close>: \<open>None\<close> is \<^verbatim>\<open>process.exit(1)\<close>.
  Block numbers are natural numbers, far below the range where a JavaScript number loses
  precision; subtraction on \<open>nat\<close> stops at 0, which is what
  \<^verbatim>\<open>Math.max(0, currentBlock - 200)\<close> computes.
\<close>

definition getStartingBlock :: "env \<Rightarrow> world \<Rightarrow> nat option \<times> world" where
  "getStartingBlock e w =
     (case blockNumberAt e (now w) of
        None \<Rightarrow> (None, emit GetBlockNumber w)
      | Some currentBlock \<Rightarrow> (Some (max 0 (currentBlock - 200)), emit GetBlockNumber w))"

definition main :: "env \<Rightarrow> world \<Rightarrow> world option" where
  "main e w =
     (case getStartingBlock e w of
        (None, w1) \<Rightarrow> None
      | (Some startingBlock, w1) \<Rightarrow> Some (w1\<lparr>lastCheckedBlock := startingBlock\<rparr>))"

section \<open>The minimal watcher\<close>

text \<open>
  \<^verbatim>\<open>watcher.js\<close>: the same existence check, status check and insert; one payout attempt
  inside its own \<^verbatim>\<open>try\<close>; no delay, no completion. The callback computes its window from
  the head alone.
\<close>

definition processBridgeEvent_watcher :: "env \<Rightarrow> bridge_event \<Rightarrow> world \<Rightarrow> outcome \<times> world" where
  "processBridgeEvent_watcher e event w =
     (let transferId = ev_transferId event; user = ev_user event;
          bridgedAmount = ev_bridgedAmount event
      in case select_tx_id e transferId w of
           (None, w1) \<Rightarrow> (Done, w1)
         | (Some existing, w1) \<Rightarrow>
             if length existing > 0 then (Done, w1)
             else (let w2 = emit (GetTransfer transferId) w1
                   in case transferAt e (now w1) transferId of
                        None \<Rightarrow> (Threw, w2)
                      | Some transfer \<Rightarrow>
                          if tr_status transfer = 0 then
                            (let w3 = snd (insert_row e (pending_row event) w2)
                             in (Done, emit (Payout transferId user bridgedAmount) w3))
                          else (Done, w2)))"

fun processBridgeEvents_watcher :: "env \<Rightarrow> bridge_event list \<Rightarrow> world \<Rightarrow> outcome \<times> world" where
  "processBridgeEvents_watcher e [] w = (Done, w)"
| "processBridgeEvents_watcher e (event # rest) w =
     (case processBridgeEvent_watcher e event w of
        (Threw, w') \<Rightarrow> (Threw, w')
      | (Done, w') \<Rightarrow> processBridgeEvents_watcher e rest w')"

definition poll_try_watcher :: "env \<Rightarrow> world \<Rightarrow> outcome \<times> world" where
  "poll_try_watcher e w =
     (let w1 = emit GetBlockNumber w
      in case blockNumberAt e (now w) of
           None \<Rightarrow> (Threw, w1)
         | Some currentBlock \<Rightarrow>
            (let startingBlock = max 0 (currentBlock - 1000)
             in case scan (logsBridge e) BridgeInitiated startingBlock currentBlock [] w1 of
                  (None, w2) \<Rightarrow> (Threw, w2)
                | (Some bridgeEvents, w2) \<Rightarrow>
                   (case scan (logsRefund e) Refunded startingBlock currentBlock [] w2 of
                      (None, w3) \<Rightarrow> (Threw, w3)
                    | (Some refundEvents, w3) \<Rightarrow>
                       (case processBridgeEvents_watcher e bridgeEvents w3 of
                          (Threw, w4) \<Rightarrow> (Threw, w4)
                        | (Done, w4) \<Rightarrow> (Done, processRefundEvents e refundEvents w4)))))"

definition poll_watcher :: "env \<Rightarrow> world \<Rightarrow> world" where
  "poll_watcher e w = snd (poll_try_watcher e w)"

definition getStartingBlock_watcher :: "env \<Rightarrow> world \<Rightarrow> nat option \<times> world" where
  "getStartingBlock_watcher e w =
     (case blockNumberAt e (now w) of
        None \<Rightarrow> (None, emit GetBlockNumber w)
      | Some currentBlock \<Rightarrow> (Some (max 0 (currentBlock - 1000)), emit GetBlockNumber w))"

definition main_watcher :: "env \<Rightarrow> world \<Rightarrow> world option" where
  "main_watcher e w =
     (case getStartingBlock_watcher e w of
        (None, w1) \<Rightarrow> None
      | (Some startingBlock, w1) \<Rightarrow> Some (w1\<lparr>lastCheckedBlock := startingBlock\<rparr>))"

section \<open>Vocabulary of the statements\<close>

text \<open>
  Several actions recorded at once; the actions a step added to the trace; whether a world
  continues the trace of another.
\<close>

definition emits :: "action list \<Rightarrow> world \<Rightarrow> world" where
  "emits as w = w\<lparr>trace := trace w @ as\<rparr>"

definition emitted :: "world \<Rightarrow> world \<Rightarrow> action list" where
  "emitted w w' = drop (length (trace w)) (trace w')"

definition later :: "world \<Rightarrow> world \<Rightarrow> bool" where
  "later w w' \<longleftrightarrow> take (length (trace w)) (trace w') = trace w"

fun is_payout :: "action \<Rightarrow> bool" where
  "is_payout (Payout t u a) = True"
| "is_payout _ = False"

text \<open>The calls that change the store or a chain.\<close>

fun is_write :: "action \<Rightarrow> bool" where
  "is_write (Insert r) = True"
| "is_write (Payout t u a) = True"
| "is_write (Complete t sgs signers) = True"
| "is_write (UpdateComplete t b sg) = True"
| "is_write (UpdateRefunded t) = True"
| "is_write _ = False"

text \<open>The block number of the receipt, when the transaction was mined.\<close>

definition receipt :: "tx_result \<Rightarrow> nat option" where
  "receipt r = (case r of Confirmed h blockNumber \<Rightarrow> Some blockNumber | _ \<Rightarrow> None)"

text \<open>
  What the specification says of the scanner: the results of the sub-queries, asked one
  after the other from time \<open>t\<close>, concatenated in the order of the sub-ranges.
\<close>

fun concat_queries :: "(nat \<Rightarrow> nat \<Rightarrow> nat \<Rightarrow> 'e list option) \<Rightarrow> nat \<Rightarrow> (nat \<times> nat) list
    \<Rightarrow> 'e list option" where
  "concat_queries q t [] = Some []"
| "concat_queries q t ((a, b) # rs) =
     (case q t a b of
        None \<Rightarrow> None
      | Some chunkEvents \<Rightarrow> map_option ((@) chunkEvents) (concat_queries q (Suc t) rs))"

definition query_of :: "event_kind \<Rightarrow> nat \<times> nat \<Rightarrow> action" where
  "query_of kind r = QueryFilter kind (fst r) (snd r)"

text \<open>The calls of the payout loop, read off the answers of the destination chain.\<close>

definition payout_actions :: "env \<Rightarrow> hex \<Rightarrow> hex \<Rightarrow> nat \<Rightarrow> nat \<Rightarrow> action list" where
  "payout_actions e t u a n =
     (case receipt (payoutTx e n) of
        Some b \<Rightarrow> [Payout t u a]
      | None \<Rightarrow>
         (case receipt (payoutTx e (n + 2)) of
            Some b \<Rightarrow> [Payout t u a, Sleep 2000, Payout t u a]
          | None \<Rightarrow> [Payout t u a, Sleep 2000, Payout t u a, Sleep 4000, Payout t u a]))"

text \<open>
  The world at the end of an iteration that found the transfer absent from the store and
  pending on the chain: insert, payout loop, completion when the payout succeeded, delay.
\<close>

definition pending_world :: "config \<Rightarrow> env \<Rightarrow> bridge_event \<Rightarrow> world \<Rightarrow> world" where
  "pending_world cfg e ev w =
     (let t = ev_transferId ev; u = ev_user ev; a = ev_bridgedAmount ev;
          w3 = snd (insert_row e (pending_row ev) (emits [Select t, GetTransfer t] w));
          w4 = emits (payout_actions e t u a (now w3)) w3;
          w5 = (case fst (payoutLoop e t u a 0 w3) of
                  None \<Rightarrow> w4
                | Some pb \<Rightarrow> snd (processPayoutCompletion cfg e t u a pb w4))
      in emit (Sleep 1000) w5)"

section \<open>Concrete inputs\<close>

definition cfg0 :: config where
  "cfg0 = \<lparr>PRIVATE_KEY = ''0xk1'', SIGNER_KEY = ''0xk2'', L2_ADDRESS = ''0xL2'',
           L1_ADDRESS = ''0xL1''\<rparr>"

definition world0 :: world where
  "world0 = \<lparr>lastCheckedBlock = 0, store = [], trace = []\<rparr>"

definition ev_aa :: bridge_event where
  "ev_aa = \<lparr>ev_user = ''0xu1'', ev_originalAmount = 105, ev_bridgedAmount = 100,
            ev_transferId = ''0xaa'', ev_timestamp = 7, ev_blockNumber = 1\<rparr>"

definition ev_bb :: bridge_event where
  "ev_bb = \<lparr>ev_user = ''0xu2'', ev_originalAmount = 21, ev_bridgedAmount = 20,
            ev_transferId = ''0xbb'', ev_timestamp = 8, ev_blockNumber = 1\<rparr>"

definition rf_cc :: refund_event where
  "rf_cc = \<lparr>rf_transferId = ''0xcc'', rf_user = ''0xu3'', rf_amount = 5, rf_blockNumber = 1\<rparr>"

definition pending0 :: transfer where
  "pending0 = \<lparr>tr_user = ''0xu1'', tr_originalAmount = 105, tr_bridgedAmount = 100,
               tr_timestamp = 7, tr_status = 0\<rparr>"

text \<open>
  An environment in which nothing fails: the head is block 1, which holds the two
  initiation events and the refund event; every transfer is pending; transactions are
  mined in block 9.
\<close>

definition env0 :: env where
  "env0 = \<lparr>blockNumberAt = (\<lambda>t. Some 1),
           logsBridge = (\<lambda>t a b. Some (if a \<le> 1 \<and> 1 \<le> b then [ev_aa, ev_bb] else [])),
           logsRefund = (\<lambda>t a b. Some (if a \<le> 1 \<and> 1 \<le> b then [rf_cc] else [])),
           selectError = (\<lambda>t. False),
           insertError = (\<lambda>t. None),
           updateError = (\<lambda>t. False),
           transferAt = (\<lambda>t i. Some pending0),
           payoutTx = (\<lambda>t. Confirmed ''0xh1'' 9),
           signThrows = (\<lambda>t. False),
           completeTx = (\<lambda>t. Confirmed ''0xh2'' 9)\<rparr>"

definition completed_cc :: row where
  "completed_cc = \<lparr>tx_id = ''0xcc'', address = ''0xu3'', bridged_amount = ''5'',
     status = ''Completed'', block_number = 1, timestamp = ''6'',
     l1_block_number = Some 9, signature1 = None\<rparr>"

definition env_aa_unreadable :: env where
  "env_aa_unreadable =
     env0\<lparr>transferAt := (\<lambda>t i. if i = ''0xaa'' then None else Some pending0)\<rparr>"

definition env_conflict :: env where
  "env_conflict = env0\<lparr>insertError := (\<lambda>t. Some Conflict)\<rparr>"

definition stored_aa :: world where
  "stored_aa = world0\<lparr>store := [pending_row ev_aa]\<rparr>"

definition ahead5 :: world where
  "ahead5 = world0\<lparr>lastCheckedBlock := 5\<rparr>"

section \<open>Basic facts\<close>

lemma now_emit [simp]: "now (emit a w) = Suc (now w)"
  by (simp add: now_def emit_def)

lemma store_emit [simp]: "store (emit a w) = store w"
  by (simp add: emit_def)

lemma cursor_emit [simp]: "lastCheckedBlock (emit a w) = lastCheckedBlock w"
  by (simp add: emit_def)

lemma trace_emit [simp]: "trace (emit a w) = trace w @ [a]"
  by (simp add: emit_def)

lemma scan_events:
  "fst (scan q kind f c evs w) = map_option ((@) evs) (concat_queries q (now w) (chunks f c))"
proof (induction q kind f c evs w rule: scan.induct)
  case (1 q kind f c evs w)
  show ?case
  proof (cases "f \<le> c")
    case False
    then show ?thesis by (simp add: scan.simps chunks.simps)
  next
    case True
    show ?thesis
    proof (cases "q (now w) f (min (f + 499) c)")
      case None
      with True show ?thesis
        by (subst scan.simps, subst chunks.simps) (simp add: Let_def)
    next
      case (Some ch)
      with True "1.IH"[OF True refl refl Some] show ?thesis
        by (subst scan.simps, subst chunks.simps)
           (simp add: Let_def option.map_comp comp_def)
    qed
  qed
qed

lemma scan_trace:
  "fst (scan q kind f c evs w) = Some events \<Longrightarrow>
   trace (snd (scan q kind f c evs w)) = trace w @ map (query_of kind) (chunks f c)"
proof (induction q kind f c evs w rule: scan.induct)
  case (1 q kind f c evs w)
  show ?case
  proof (cases "f \<le> c")
    case False
    then show ?thesis by (simp add: scan.simps chunks.simps)
  next
    case True
    show ?thesis
    proof (cases "q (now w) f (min (f + 499) c)")
      case None
      with True "1.prems" show ?thesis
        by (subst (asm) scan.simps) (simp add: Let_def)
    next
      case (Some ch)
      from True Some "1.prems" have
        "fst (scan q kind (min (f + 499) c + 1) c (evs @ ch) (emit (QueryFilter kind f (min (f + 499) c)) w)) = Some events"
        by (subst (asm) scan.simps) (simp add: Let_def)
      from "1.IH"[OF True refl refl Some this] True Some show ?thesis
        by (subst scan.simps, subst chunks.simps)
           (simp add: Let_def query_of_def)
    qed
  qed
qed

lemma scan_frame:
  "store (snd (scan q kind f c evs w)) = store w \<and>
   lastCheckedBlock (snd (scan q kind f c evs w)) = lastCheckedBlock w"
proof (induction q kind f c evs w rule: scan.induct)
  case (1 q kind f c evs w)
  show ?case
  proof (cases "f \<le> c")
    case False
    then show ?thesis by (simp add: scan.simps)
  next
    case True
    show ?thesis
    proof (cases "q (now w) f (min (f + 499) c)")
      case None
      with True show ?thesis
        by (subst scan.simps, subst (2) scan.simps) (simp add: Let_def)
    next
      case (Some ch)
      with True "1.IH"[OF True refl refl Some] show ?thesis
        by (subst scan.simps, subst (2) scan.simps) (simp add: Let_def)
    qed
  qed
qed

lemma chunks_one: "chunks f (f + 499) = [(f, f + 499)]"
  by (subst chunks.simps, subst chunks.simps) (simp add: Let_def)

lemma chunks_two: "chunks f (f + 500) = [(f, f + 499), (f + 500, f + 500)]"
  by (subst chunks.simps, subst chunks.simps, subst chunks.simps) (simp add: Let_def)

lemma chunks_length: "length (chunks f c) = (c + 1 - f + 499) div 500"
proof (induction f c rule: chunks.induct)
  case (1 f c)
  show ?case
  proof (cases "f \<le> c")
    case False
    then show ?thesis by (subst chunks.simps) simp
  next
    case True
    from "1.IH"[OF True refl] True show ?thesis
      by (subst chunks.simps) (auto simp: Let_def min_def)
  qed
qed

lemma chunks_cover: "concat (map (\<lambda>(a, b). [a..<b + 1]) (chunks f c)) = [f..<c + 1]"
proof (induction f c rule: chunks.induct)
  case (1 f c)
  show ?case
  proof (cases "f \<le> c")
    case False
    then show ?thesis by (subst chunks.simps) simp
  next
    case True
    have "[f..<c + 1] = [f..<min (f + 499) c + 1] @ [min (f + 499) c + 1..<c + 1]"
      using True upt_add_eq_append [of f "min (f + 499) c + 1" "c - min (f + 499) c"]
      by (simp add: min_def split: if_splits)
    with "1.IH"[OF True refl] True show ?thesis
      by (subst chunks.simps) (simp add: Let_def)
  qed
qed

lemma chunks_size: "(a, b) \<in> set (chunks f c) \<Longrightarrow> f \<le> a \<and> a \<le> b \<and> b \<le> c \<and> b + 1 - a \<le> 500"
proof (induction f c rule: chunks.induct)
  case (1 f c)
  show ?case
  proof (cases "f \<le> c")
    case False
    with "1.prems" show ?thesis by (subst (asm) chunks.simps) simp
  next
    case True
    from "1.prems" True have "(a, b) = (f, min (f + 499) c) \<or> (a, b) \<in> set (chunks (min (f + 499) c + 1) c)"
      by (subst (asm) chunks.simps) (simp add: Let_def)
    with "1.IH"[OF True refl] True show ?thesis
      by (auto simp: min_def split: if_splits)
  qed
qed

lemma chunks_full: "(a, b) \<in> set (butlast (chunks f c)) \<Longrightarrow> b + 1 - a = 500"
proof (induction f c rule: chunks.induct)
  case (1 f c)
  show ?case
  proof (cases "f \<le> c")
    case False
    with "1.prems" show ?thesis by (subst (asm) chunks.simps) simp
  next
    case True
    show ?thesis
    proof (cases "chunks (min (f + 499) c + 1) c = []")
      case True
      with "1.prems" \<open>f \<le> c\<close> show ?thesis
        by (subst (asm) chunks.simps) (simp add: Let_def)
    next
      case False
      then have "min (f + 499) c + 1 \<le> c"
        by (subst (asm) chunks.simps) (simp split: if_splits)
      then have m: "min (f + 499) c = f + 499" by (simp add: min_def split: if_splits)
      from "1.prems" True False have "(a, b) = (f, f + 499) \<or> (a, b) \<in> set (butlast (chunks (min (f + 499) c + 1) c))"
        by (subst (asm) chunks.simps) (simp add: Let_def m)
      with "1.IH"[OF True refl] show ?thesis by auto
    qed
  qed
qed

section \<open>The payout loop, unrolled\<close>

lemma emit_as_emits: "emit a w = emits [a] w"
  by (simp add: emit_def emits_def)

lemma now_emits [simp]: "now (emits as w) = now w + length as"
  by (simp add: now_def emits_def)

lemma store_emits [simp]: "store (emits as w) = store w"
  by (simp add: emits_def)

lemma cursor_emits [simp]: "lastCheckedBlock (emits as w) = lastCheckedBlock w"
  by (simp add: emits_def)

lemma trace_emits [simp]: "trace (emits as w) = trace w @ as"
  by (simp add: emits_def)

lemma payoutLoop_exit: "3 \<le> rc \<Longrightarrow> payoutLoop e t u a rc w = (None, w)"
  by (subst payoutLoop.simps) (simp add: maxRetries_def)

lemma payoutLoop_confirmed:
  "rc < 3 \<Longrightarrow> receipt (payoutTx e (now w)) = Some b \<Longrightarrow>
   payoutLoop e t u a rc w = (Some b, emits [Payout t u a] w)"
  by (subst payoutLoop.simps, cases "payoutTx e (now w)")
     (simp_all add: Let_def maxRetries_def receipt_def emit_as_emits)

lemma payoutLoop_retry:
  "rc < 2 \<Longrightarrow> receipt (payoutTx e (now w)) = None \<Longrightarrow>
   payoutLoop e t u a rc w =
     payoutLoop e t u a (Suc rc) (emits [Payout t u a, Sleep (2 ^ Suc rc * 1000)] w)"
  by (subst payoutLoop.simps, cases "payoutTx e (now w)")
     (simp_all add: Let_def maxRetries_def receipt_def emit_def emits_def)

lemma payoutLoop_give_up:
  "rc = 2 \<Longrightarrow> receipt (payoutTx e (now w)) = None \<Longrightarrow>
   payoutLoop e t u a rc w = (None, emits [Payout t u a] w)"
  by (subst payoutLoop.simps, cases "payoutTx e (now w)")
     (simp_all add: Let_def maxRetries_def receipt_def emit_as_emits payoutLoop_exit)

lemma emits_emits: "emits bs (emits as w) = emits (as @ bs) w"
  by (simp add: emits_def)

lemma payoutLoop_0:
  "payoutLoop e t u a 0 w =
     (case receipt (payoutTx e (now w)) of
        Some b \<Rightarrow> (Some b, emits [Payout t u a] w)
      | None \<Rightarrow>
         (case receipt (payoutTx e (now w + 2)) of
            Some b \<Rightarrow> (Some b, emits [Payout t u a, Sleep 2000, Payout t u a] w)
          | None \<Rightarrow> (receipt (payoutTx e (now w + 4)),
                      emits [Payout t u a, Sleep 2000, Payout t u a, Sleep 4000, Payout t u a] w)))"
proof (cases "receipt (payoutTx e (now w))")
  case (Some b)
  then show ?thesis by (simp add: payoutLoop_confirmed)
next
  case first: None
  let ?w1 = "emits [Payout t u a, Sleep 2000] w"
  have step1: "payoutLoop e t u a 0 w = payoutLoop e t u a (Suc 0) ?w1"
    using payoutLoop_retry [of 0 e w t u a] first by simp
  have now1: "now ?w1 = now w + 2" by simp
  show ?thesis
  proof (cases "receipt (payoutTx e (now w + 2))")
    case (Some b)
    then have "payoutLoop e t u a (Suc 0) ?w1 = (Some b, emits [Payout t u a] ?w1)"
      using payoutLoop_confirmed [of "Suc 0" e ?w1 b t u a] now1 by simp
    with first Some step1 show ?thesis by (simp add: emits_emits)
  next
    case second: None
    let ?w2 = "emits [Payout t u a, Sleep 4000] ?w1"
    have step2: "payoutLoop e t u a (Suc 0) ?w1 = payoutLoop e t u a (Suc (Suc 0)) ?w2"
      using payoutLoop_retry [of "Suc 0" e ?w1 t u a] second now1 by simp
    have e4: "Suc (Suc (Suc (Suc (now w)))) = now w + 4" by simp
    have now2: "now ?w2 = now w + 4" by simp
    show ?thesis
    proof (cases "receipt (payoutTx e (now w + 4))")
      case (Some b)
      then have "payoutLoop e t u a (Suc (Suc 0)) ?w2 = (Some b, emits [Payout t u a] ?w2)"
        using payoutLoop_confirmed [of "Suc (Suc 0)" e ?w2 b t u a] by (simp add: e4)
      with first second Some step1 step2 show ?thesis by (simp add: emits_emits)
    next
      case None
      then have "payoutLoop e t u a (Suc (Suc 0)) ?w2 = (None, emits [Payout t u a] ?w2)"
        using payoutLoop_give_up [of "Suc (Suc 0)" e ?w2 t u a] by (simp add: e4)
      with first second None step1 step2 show ?thesis by (simp add: emits_emits)
    qed
  qed
qed

section \<open>Traces and frames\<close>

lemma later_refl [simp]: "later w w"
  by (simp add: later_def)

lemma later_append: "trace w' = trace w @ xs \<Longrightarrow> later w w'"
  by (simp add: later_def)

lemma later_trace: "later w w' \<Longrightarrow> trace w' = trace w @ emitted w w'"
  unfolding later_def emitted_def by (metis append_take_drop_id)

lemma later_trans: "later w w' \<Longrightarrow> later w' w'' \<Longrightarrow> later w w''"
  using later_trace [of w w'] later_trace [of w' w'']
  by (auto intro: later_append)

lemma emitted_trans:
  assumes "later w w'" and "later w' w''"
  shows "emitted w w'' = emitted w w' @ emitted w' w''"
proof -
  have "trace w'' = trace w @ (emitted w w' @ emitted w' w'')"
    using later_trace [OF assms(1)] later_trace [OF assms(2)] by simp
  then show ?thesis
    by (simp add: emitted_def [of w w''])
qed

lemma later_emit [simp]: "later w (emit a w)"
  by (simp add: later_def)

lemma later_emits [simp]: "later w (emits as w)"
  by (simp add: later_def)

lemma emitted_emits [simp]: "emitted w (emits as w) = as"
  by (simp add: emitted_def)

lemma emitted_emit [simp]: "emitted w (emit a w) = [a]"
  by (simp add: emitted_def)

lemma payoutLoop_snd:
  "snd (payoutLoop e t u a 0 w) = emits (payout_actions e t u a (now w)) w"
  by (simp add: payoutLoop_0 payout_actions_def split: option.splits)

lemma payout_actions_count: "length (filter is_payout (payout_actions e t u a n)) \<le> 3"
  by (simp add: payout_actions_def split: option.splits)

lemma payout_actions_hd: "\<exists>xs. payout_actions e t u a n = Payout t u a # xs"
  by (simp add: payout_actions_def split: option.splits)

lemma insert_row_later: "later w (snd (insert_row e r w))"
  by (auto simp: insert_row_def later_def split: option.splits)

lemma insert_row_emitted: "emitted w (snd (insert_row e r w)) = [Insert r]"
  by (auto simp: insert_row_def emitted_def split: option.splits)

lemma insert_row_cursor: "lastCheckedBlock (snd (insert_row e r w)) = lastCheckedBlock w"
  by (auto simp: insert_row_def split: option.splits)

lemma update_eq_keys [simp]: "(\<And>r. tx_id (f r) = tx_id r) \<Longrightarrow> map tx_id (update_eq t f rows) = map tx_id rows"
  by (induction rows) (auto simp: update_eq_def)

lemma processPayoutCompletion_cursor:
  "lastCheckedBlock (snd (processPayoutCompletion cfg e t u a pb w)) = lastCheckedBlock w"
  unfolding processPayoutCompletion_def callCompleteOnL2_def updateSupabaseComplete_def Let_def
  by (simp split: option.splits tx_result.splits)

lemma processPayoutCompletion_keys:
  "map tx_id (store (snd (processPayoutCompletion cfg e t u a pb w))) = map tx_id (store w)"
  unfolding processPayoutCompletion_def callCompleteOnL2_def updateSupabaseComplete_def Let_def
  by (simp split: option.splits tx_result.splits)

lemma processPayoutCompletion_later:
  "later w (snd (processPayoutCompletion cfg e t u a pb w))"
  unfolding processPayoutCompletion_def callCompleteOnL2_def updateSupabaseComplete_def Let_def
  by (simp add: later_def split: option.splits tx_result.splits)

lemma processPayoutCompletion_no_payout:
  "filter is_payout (emitted w (snd (processPayoutCompletion cfg e t u a pb w))) = []"
  unfolding processPayoutCompletion_def callCompleteOnL2_def updateSupabaseComplete_def Let_def
  by (simp add: emitted_def split: option.splits tx_result.splits)

section \<open>One initiation event\<close>

lemma payoutLoop_world:
  "payoutLoop e t u a 0 w = (r, w') \<Longrightarrow> w' = emits (payout_actions e t u a (now w)) w"
  using payoutLoop_snd [of e t u a w] by simp

lemma in_store_filter: "filter (\<lambda>r. tx_id r = t) rows = [] \<longleftrightarrow> t \<notin> tx_id ` set rows"
  by (auto simp: filter_empty_conv)

lemma processBridgeEvent_cursor:
  "lastCheckedBlock (snd (processBridgeEvent cfg e ev w)) = lastCheckedBlock w"
  unfolding processBridgeEvent_def select_tx_id_def Let_def
  by (auto split: option.splits prod.splits
           simp: insert_row_cursor processPayoutCompletion_cursor dest!: payoutLoop_world)

lemma insert_row_distinct:
  "distinct (map tx_id (store w)) \<Longrightarrow> tx_id r \<notin> tx_id ` set (store w) \<Longrightarrow>
   distinct (map tx_id (store (snd (insert_row e r w))))"
  by (auto simp: insert_row_def split: option.splits)

lemma processBridgeEvent_distinct:
  "distinct (map tx_id (store w)) \<Longrightarrow>
   distinct (map tx_id (store (snd (processBridgeEvent cfg e ev w))))"
  unfolding processBridgeEvent_def select_tx_id_def Let_def
  by (auto split: option.splits prod.splits
           simp: processPayoutCompletion_keys in_store_filter pending_row_def
           dest!: payoutLoop_world intro!: insert_row_distinct)

lemma processBridgeEvent_cases:
  "processBridgeEvent cfg e ev w =
     (let t = ev_transferId ev in
      if selectError e (now w) \<or> t \<in> tx_id ` set (store w) then (Done, emits [Select t] w)
      else case transferAt e (Suc (now w)) t of
             None \<Rightarrow> (Threw, emits [Select t, GetTransfer t] w)
           | Some tr \<Rightarrow>
               if tr_status tr = 0 then (Done, pending_world cfg e ev w)
               else (Done, emits [Select t, GetTransfer t, Sleep 1000] w))"
  unfolding processBridgeEvent_def select_tx_id_def pending_world_def Let_def
  by (auto split: option.splits prod.splits
           simp: in_store_filter emit_as_emits emits_emits dest!: payoutLoop_world)

lemma pending_world_trace:
  "later w (pending_world cfg e ev w) \<and>
   Select (ev_transferId ev) \<in> set (emitted w (pending_world cfg e ev w)) \<and>
   Payout (ev_transferId ev) (ev_user ev) (ev_bridgedAmount ev)
     \<in> set (emitted w (pending_world cfg e ev w)) \<and>
   length (filter is_payout (emitted w (pending_world cfg e ev w))) \<le> 3"
proof -
  let ?t = "ev_transferId ev" and ?u = "ev_user ev" and ?a = "ev_bridgedAmount ev"
  define w2 where "w2 = emits [Select ?t, GetTransfer ?t] w"
  define w3 where "w3 = snd (insert_row e (pending_row ev) w2)"
  define w4 where "w4 = emits (payout_actions e ?t ?u ?a (now w3)) w3"
  define w5 where "w5 = (case fst (payoutLoop e ?t ?u ?a 0 w3) of
                  None \<Rightarrow> w4
                | Some pb \<Rightarrow> snd (processPayoutCompletion cfg e ?t ?u ?a pb w4))"
  have pw: "pending_world cfg e ev w = emit (Sleep 1000) w5"
    unfolding pending_world_def Let_def w2_def w3_def w4_def w5_def by (rule refl)
  have l2: "later w w2" and e2: "emitted w w2 = [Select ?t, GetTransfer ?t]"
    by (simp_all add: w2_def)
  have l3: "later w2 w3" and e3: "emitted w2 w3 = [Insert (pending_row ev)]"
    by (simp_all add: w3_def insert_row_later insert_row_emitted)
  have l4: "later w3 w4" and e4: "emitted w3 w4 = payout_actions e ?t ?u ?a (now w3)"
    by (simp_all add: w4_def)
  have l5: "later w4 w5" and e5: "filter is_payout (emitted w4 w5) = []"
    by (simp_all add: w5_def processPayoutCompletion_later processPayoutCompletion_no_payout
          split: option.splits) (simp add: emitted_def)
  have l6: "later w5 (emit (Sleep 1000) w5)" by simp
  have l: "later w w3" "later w w4" "later w w5"
    using l2 l3 l4 l5 by (blast intro: later_trans)+
  have em: "emitted w (emit (Sleep 1000) w5) =
      [Select ?t, GetTransfer ?t, Insert (pending_row ev)] @ payout_actions e ?t ?u ?a (now w3)
        @ emitted w4 w5 @ [Sleep 1000]"
    using emitted_trans [OF l(3) l6] emitted_trans [OF l(2) l5] emitted_trans [OF l(1) l4]
      emitted_trans [OF l2 l3] e2 e3 e4 by simp
  obtain xs where xs: "payout_actions e ?t ?u ?a (now w3) = Payout ?t ?u ?a # xs"
    using payout_actions_hd by blast
  have "later w (emit (Sleep 1000) w5)"
    using l(3) l6 by (rule later_trans)
  moreover have "length (filter is_payout (emitted w (emit (Sleep 1000) w5))) \<le> 3"
    using payout_actions_count [of e ?t ?u ?a "now w3"] by (simp add: em e5)
  moreover have "Payout ?t ?u ?a \<in> set (emitted w (emit (Sleep 1000) w5))"
    by (simp add: em xs)
  ultimately show ?thesis by (simp add: pw em)
qed

lemma processBridgeEvent_trace:
  "later w (snd (processBridgeEvent cfg e ev w)) \<and>
   Select (ev_transferId ev) \<in> set (emitted w (snd (processBridgeEvent cfg e ev w))) \<and>
   length (filter is_payout (emitted w (snd (processBridgeEvent cfg e ev w)))) \<le> 3"
  using pending_world_trace [of w cfg e ev]
  by (simp add: processBridgeEvent_cases Let_def split: option.splits)

section \<open>The minimal watcher's iteration\<close>

lemma processBridgeEvent_watcher_cases:
  "processBridgeEvent_watcher e ev w =
     (let t = ev_transferId ev in
      if selectError e (now w) \<or> t \<in> tx_id ` set (store w) then (Done, emits [Select t] w)
      else case transferAt e (Suc (now w)) t of
             None \<Rightarrow> (Threw, emits [Select t, GetTransfer t] w)
           | Some tr \<Rightarrow>
               if tr_status tr = 0 then
                 (Done, emit (Payout t (ev_user ev) (ev_bridgedAmount ev))
                          (snd (insert_row e (pending_row ev) (emits [Select t, GetTransfer t] w))))
               else (Done, emits [Select t, GetTransfer t] w))"
  unfolding processBridgeEvent_watcher_def select_tx_id_def Let_def
  by (auto split: option.splits simp: in_store_filter emit_as_emits emits_emits)

lemma processBridgeEvent_watcher_cursor:
  "lastCheckedBlock (snd (processBridgeEvent_watcher e ev w)) = lastCheckedBlock w"
  by (simp add: processBridgeEvent_watcher_cases Let_def insert_row_cursor split: option.splits)

lemma processBridgeEvent_watcher_distinct:
  "distinct (map tx_id (store w)) \<Longrightarrow>
   distinct (map tx_id (store (snd (processBridgeEvent_watcher e ev w))))"
  by (auto simp: processBridgeEvent_watcher_cases Let_def pending_row_def
           split: option.splits intro!: insert_row_distinct)

lemma watcher_pending_trace:
  "later w (emit p (snd (insert_row e r (emits [s, g] w)))) \<and>
   emitted w (emit p (snd (insert_row e r (emits [s, g] w)))) = [s, g, Insert r, p]"
  by (auto simp: insert_row_def later_def emitted_def split: option.splits)

lemma processBridgeEvent_watcher_trace:
  "later w (snd (processBridgeEvent_watcher e ev w)) \<and>
   Select (ev_transferId ev) \<in> set (emitted w (snd (processBridgeEvent_watcher e ev w)))"
  by (simp add: processBridgeEvent_watcher_cases Let_def watcher_pending_trace
           split: option.splits)

section \<open>The loops over the events of a tick\<close>

lemma processBridgeEvents_cursor:
  "lastCheckedBlock (snd (processBridgeEvents cfg e evs w)) = lastCheckedBlock w"
proof (induction evs arbitrary: w)
  case Nil
  show ?case by simp
next
  case (Cons ev evs)
  show ?case
    using Cons.IH [of "snd (processBridgeEvent cfg e ev w)"]
      processBridgeEvent_cursor [of cfg e ev w]
    by (cases "processBridgeEvent cfg e ev w") (auto split: outcome.splits)
qed

lemma processBridgeEvents_distinct:
  "distinct (map tx_id (store w)) \<Longrightarrow>
   distinct (map tx_id (store (snd (processBridgeEvents cfg e evs w))))"
proof (induction evs arbitrary: w)
  case Nil
  then show ?case by simp
next
  case (Cons ev evs)
  have d: "distinct (map tx_id (store (snd (processBridgeEvent cfg e ev w))))"
    using Cons.prems by (rule processBridgeEvent_distinct)
  show ?case
    using Cons.IH [OF d] d
    by (cases "processBridgeEvent cfg e ev w") (auto split: outcome.splits)
qed

lemma processBridgeEvents_later:
  "later w (snd (processBridgeEvents cfg e evs w))"
proof (induction evs arbitrary: w)
  case Nil
  show ?case by simp
next
  case (Cons ev evs)
  have l: "later w (snd (processBridgeEvent cfg e ev w))"
    using processBridgeEvent_trace by blast
  show ?case
    using Cons.IH [of "snd (processBridgeEvent cfg e ev w)"] l
    by (cases "processBridgeEvent cfg e ev w") (auto split: outcome.splits intro: later_trans)
qed

lemma processBridgeEvents_all:
  "fst (processBridgeEvents cfg e evs w) = Done \<Longrightarrow> ev \<in> set evs \<Longrightarrow>
   Select (ev_transferId ev) \<in> set (emitted w (snd (processBridgeEvents cfg e evs w)))"
proof (induction evs arbitrary: w)
  case Nil
  then show ?case by simp
next
  case (Cons x evs)
  obtain r w1 where p: "processBridgeEvent cfg e x w = (r, w1)"
    by (cases "processBridgeEvent cfg e x w")
  with Cons.prems(1) have r: "r = Done" and
    rest: "processBridgeEvents cfg e (x # evs) w = processBridgeEvents cfg e evs w1"
    by (auto split: outcome.splits)
  from p have l1: "later w w1" and s1: "Select (ev_transferId x) \<in> set (emitted w w1)"
    using processBridgeEvent_trace [of w cfg e x] by simp_all
  have l2: "later w1 (snd (processBridgeEvents cfg e evs w1))"
    by (rule processBridgeEvents_later)
  have em: "emitted w (snd (processBridgeEvents cfg e (x # evs) w)) =
      emitted w w1 @ emitted w1 (snd (processBridgeEvents cfg e evs w1))"
    unfolding rest by (rule emitted_trans [OF l1 l2])
  show ?case
  proof (cases "ev = x")
    case True
    with s1 em show ?thesis by simp
  next
    case False
    with Cons.prems(2) have "ev \<in> set evs" by simp
    moreover from Cons.prems(1) rest have "fst (processBridgeEvents cfg e evs w1) = Done" by simp
    ultimately have "Select (ev_transferId ev) \<in> set (emitted w1 (snd (processBridgeEvents cfg e evs w1)))"
      by (rule Cons.IH [rotated])
    with em show ?thesis by simp
  qed
qed

lemma processBridgeEvents_watcher_cursor:
  "lastCheckedBlock (snd (processBridgeEvents_watcher e evs w)) = lastCheckedBlock w"
proof (induction evs arbitrary: w)
  case Nil
  show ?case by simp
next
  case (Cons ev evs)
  show ?case
    using Cons.IH [of "snd (processBridgeEvent_watcher e ev w)"]
      processBridgeEvent_watcher_cursor [of e ev w]
    by (cases "processBridgeEvent_watcher e ev w") (auto split: outcome.splits)
qed

lemma processBridgeEvents_watcher_distinct:
  "distinct (map tx_id (store w)) \<Longrightarrow>
   distinct (map tx_id (store (snd (processBridgeEvents_watcher e evs w))))"
proof (induction evs arbitrary: w)
  case Nil
  then show ?case by simp
next
  case (Cons ev evs)
  have d: "distinct (map tx_id (store (snd (processBridgeEvent_watcher e ev w))))"
    using Cons.prems by (rule processBridgeEvent_watcher_distinct)
  show ?case
    using Cons.IH [OF d] d
    by (cases "processBridgeEvent_watcher e ev w") (auto split: outcome.splits)
qed

lemma processRefundEvent_frame:
  "lastCheckedBlock (processRefundEvent e ev w) = lastCheckedBlock w \<and>
   map tx_id (store (processRefundEvent e ev w)) = map tx_id (store w) \<and>
   later w (processRefundEvent e ev w) \<and>
   emitted w (processRefundEvent e ev w) = [UpdateRefunded (rf_transferId ev)]"
  by (simp add: processRefundEvent_def Let_def later_def emitted_def)

lemma processRefundEvents_frame:
  "lastCheckedBlock (processRefundEvents e evs w) = lastCheckedBlock w \<and>
   map tx_id (store (processRefundEvents e evs w)) = map tx_id (store w) \<and>
   later w (processRefundEvents e evs w)"
proof (induction evs arbitrary: w)
  case Nil
  show ?case by simp
next
  case (Cons ev evs)
  show ?case
    using Cons.IH [of "processRefundEvent e ev w"] processRefundEvent_frame [of e ev w]
    by (auto intro: later_trans)
qed

lemma processRefundEvents_emitted:
  "emitted w (processRefundEvents e evs w) = map (\<lambda>ev. UpdateRefunded (rf_transferId ev)) evs"
proof (induction evs arbitrary: w)
  case Nil
  show ?case by (simp add: emitted_def)
next
  case (Cons ev evs)
  have "emitted w (processRefundEvents e evs (processRefundEvent e ev w)) =
      emitted w (processRefundEvent e ev w) @
      emitted (processRefundEvent e ev w) (processRefundEvents e evs (processRefundEvent e ev w))"
    using processRefundEvent_frame [of e ev w]
      processRefundEvents_frame [of e evs "processRefundEvent e ev w"]
    by (intro emitted_trans) simp_all
  then show ?case
    using Cons.IH [of "processRefundEvent e ev w"] processRefundEvent_frame [of e ev w]
    by simp
qed

lemma scan_later: "later w (snd (scan q kind f c evs w))"
proof (induction q kind f c evs w rule: scan.induct)
  case (1 q kind f c evs w)
  show ?case
  proof (cases "f \<le> c")
    case False
    then show ?thesis by (simp add: scan.simps)
  next
    case True
    show ?thesis
    proof (cases "q (now w) f (min (f + 499) c)")
      case None
      with True show ?thesis
        by (subst scan.simps) (simp add: Let_def)
    next
      case (Some ch)
      with True "1.IH"[OF True refl refl Some] show ?thesis
        by (subst scan.simps) (auto simp: Let_def intro: later_trans [OF later_emit])
    qed
  qed
qed

lemma scan_store: "store (snd (scan q kind f c evs w)) = store w"
  using scan_frame by blast

lemma scan_cursor: "lastCheckedBlock (snd (scan q kind f c evs w)) = lastCheckedBlock w"
  using scan_frame by blast

section \<open>Outcome and store of an iteration, in closed form\<close>

lemma insert_row_keys_eq:
  "map tx_id (store (snd (insert_row e r w))) =
     (if insertError e (now w) = None then map tx_id (store w) @ [tx_id r]
      else map tx_id (store w))"
  by (auto simp: insert_row_def split: option.splits)

lemma pending_world_keys:
  "map tx_id (store (pending_world cfg e ev w)) =
     (if insertError e (now w + 2) = None then map tx_id (store w) @ [ev_transferId ev]
      else map tx_id (store w))"
  by (simp add: pending_world_def Let_def processPayoutCompletion_keys insert_row_keys_eq
        pending_row_def split: option.splits)

lemma processBridgeEvent_keys:
  "map tx_id (store (snd (processBridgeEvent cfg e ev w))) =
     (if \<not> selectError e (now w) \<and> ev_transferId ev \<notin> set (map tx_id (store w))
         \<and> map_option tr_status (transferAt e (Suc (now w)) (ev_transferId ev)) = Some 0
         \<and> insertError e (now w + 2) = None
      then map tx_id (store w) @ [ev_transferId ev]
      else map tx_id (store w))"
  by (auto simp: processBridgeEvent_cases Let_def pending_world_keys split: option.splits)

lemma processBridgeEvent_fst:
  "fst (processBridgeEvent cfg e ev w) =
     (if \<not> selectError e (now w) \<and> ev_transferId ev \<notin> set (map tx_id (store w))
         \<and> transferAt e (Suc (now w)) (ev_transferId ev) = None
      then Threw else Done)"
  by (auto simp: processBridgeEvent_cases Let_def split: option.splits)

lemma processBridgeEvents_Cons:
  "processBridgeEvents cfg e (ev # rest) w =
     (if fst (processBridgeEvent cfg e ev w) = Threw
      then (Threw, snd (processBridgeEvent cfg e ev w))
      else processBridgeEvents cfg e rest (snd (processBridgeEvent cfg e ev w)))"
  by (cases "processBridgeEvent cfg e ev w") (auto split: outcome.splits)

lemma processBridgeEvent_watcher_keys:
  "map tx_id (store (snd (processBridgeEvent_watcher e ev w))) =
     (if \<not> selectError e (now w) \<and> ev_transferId ev \<notin> set (map tx_id (store w))
         \<and> map_option tr_status (transferAt e (Suc (now w)) (ev_transferId ev)) = Some 0
         \<and> insertError e (now w + 2) = None
      then map tx_id (store w) @ [ev_transferId ev]
      else map tx_id (store w))"
  by (auto simp: processBridgeEvent_watcher_cases Let_def insert_row_keys_eq pending_row_def
           split: option.splits)

lemma processBridgeEvent_watcher_fst:
  "fst (processBridgeEvent_watcher e ev w) =
     (if \<not> selectError e (now w) \<and> ev_transferId ev \<notin> set (map tx_id (store w))
         \<and> transferAt e (Suc (now w)) (ev_transferId ev) = None
      then Threw else Done)"
  by (auto simp: processBridgeEvent_watcher_cases Let_def split: option.splits)

lemma processBridgeEvents_watcher_Cons:
  "processBridgeEvents_watcher e (ev # rest) w =
     (if fst (processBridgeEvent_watcher e ev w) = Threw
      then (Threw, snd (processBridgeEvent_watcher e ev w))
      else processBridgeEvents_watcher e rest (snd (processBridgeEvent_watcher e ev w)))"
  by (cases "processBridgeEvent_watcher e ev w") (auto split: outcome.splits)

lemma scan_result:
  "scan q kind f c evs w = (r, w') \<Longrightarrow>
   store w' = store w \<and> lastCheckedBlock w' = lastCheckedBlock w \<and> later w w'"
  using scan_store [of q kind f c evs w] scan_cursor [of q kind f c evs w]
    scan_later [of w q kind f c evs]
  by simp

lemma processBridgeEvents_result:
  "processBridgeEvents cfg e evs w = (r, w') \<Longrightarrow>
   lastCheckedBlock w' = lastCheckedBlock w \<and> later w w' \<and>
   (distinct (map tx_id (store w)) \<longrightarrow> distinct (map tx_id (store w')))"
  using processBridgeEvents_cursor [of cfg e evs w] processBridgeEvents_later [of w cfg e evs]
    processBridgeEvents_distinct [of w cfg e evs]
  by simp

lemma processBridgeEvents_watcher_result:
  "processBridgeEvents_watcher e evs w = (r, w') \<Longrightarrow>
   lastCheckedBlock w' = lastCheckedBlock w \<and>
   (distinct (map tx_id (store w)) \<longrightarrow> distinct (map tx_id (store w')))"
  using processBridgeEvents_watcher_cursor [of e evs w]
    processBridgeEvents_watcher_distinct [of w e evs]
  by simp

lemma poll_distinct:
  "distinct (map tx_id (store w)) \<Longrightarrow> distinct (map tx_id (store (poll cfg e w)))"
  unfolding poll_def poll_try_def Let_def
  by (auto split: option.splits prod.splits outcome.splits
           simp: processRefundEvents_frame
           dest!: scan_result processBridgeEvents_result)

lemma poll_watcher_distinct:
  "distinct (map tx_id (store w)) \<Longrightarrow> distinct (map tx_id (store (poll_watcher e w)))"
  unfolding poll_watcher_def poll_try_watcher_def Let_def
  by (auto split: option.splits prod.splits outcome.splits
           simp: processRefundEvents_frame
           dest!: scan_result processBridgeEvents_watcher_result)

section \<open>A tick of the unified service\<close>

lemma poll_try_Done:
  assumes "fst (poll_try cfg e w) = Done"
    and "blockNumberAt e (now w) = Some head"
    and "lastCheckedBlock w < head"
  shows "lastCheckedBlock (snd (poll_try cfg e w)) = head"
  using assms unfolding poll_try_def Let_def
  by (auto split: option.splits prod.splits outcome.splits if_splits)

lemma poll_try_advanced:
  assumes "lastCheckedBlock (snd (poll_try cfg e w)) \<noteq> lastCheckedBlock w"
  obtains head bridgeEvents refundEvents w2 w3 w4 where
    "blockNumberAt e (now w) = Some head" and "lastCheckedBlock w < head"
    and "scan (logsBridge e) BridgeInitiated (lastCheckedBlock w + 1) head []
           (emit GetBlockNumber w) = (Some bridgeEvents, w2)"
    and "scan (logsRefund e) Refunded (lastCheckedBlock w + 1) head [] w2 = (Some refundEvents, w3)"
    and "processBridgeEvents cfg e bridgeEvents w3 = (Done, w4)"
    and "poll_try cfg e w = (Done, (processRefundEvents e refundEvents w4)\<lparr>lastCheckedBlock := head\<rparr>)"
proof -
  obtain head where h: "blockNumberAt e (now w) = Some head"
    using assms unfolding poll_try_def Let_def by (cases "blockNumberAt e (now w)") auto
  have lt: "lastCheckedBlock w < head"
    using assms h unfolding poll_try_def Let_def by (cases "head \<le> lastCheckedBlock w") auto
  let ?w1 = "emit GetBlockNumber w"
  obtain r1 w2 where s1: "scan (logsBridge e) BridgeInitiated (lastCheckedBlock w + 1) head [] ?w1 = (r1, w2)"
    by (cases "scan (logsBridge e) BridgeInitiated (lastCheckedBlock w + 1) head [] ?w1")
  have c2: "lastCheckedBlock w2 = lastCheckedBlock w"
    using scan_result [OF s1] by simp
  obtain bridgeEvents where r1: "r1 = Some bridgeEvents"
    using assms h lt s1 c2 unfolding poll_try_def Let_def by (cases r1) auto
  obtain r2 w3 where s2: "scan (logsRefund e) Refunded (lastCheckedBlock w + 1) head [] w2 = (r2, w3)"
    by (cases "scan (logsRefund e) Refunded (lastCheckedBlock w + 1) head [] w2")
  have c3: "lastCheckedBlock w3 = lastCheckedBlock w"
    using scan_result [OF s2] c2 by simp
  obtain refundEvents where r2: "r2 = Some refundEvents"
    using assms h lt s1 r1 s2 c2 c3 unfolding poll_try_def Let_def by (cases r2) auto
  obtain r3 w4 where p: "processBridgeEvents cfg e bridgeEvents w3 = (r3, w4)"
    by (cases "processBridgeEvents cfg e bridgeEvents w3")
  have c4: "lastCheckedBlock w4 = lastCheckedBlock w"
    using processBridgeEvents_result [OF p] c3 by simp
  have r3: "r3 = Done"
    using assms h lt s1 r1 s2 r2 p c2 c4 unfolding poll_try_def Let_def by (cases r3) auto
  have "poll_try cfg e w = (Done, (processRefundEvents e refundEvents w4)\<lparr>lastCheckedBlock := head\<rparr>)"
    using h lt s1 r1 s2 r2 p r3 c2 unfolding poll_try_def Let_def by simp
  with that h lt s1 r1 s2 r2 p r3 show thesis by blast
qed

lemma poll_try_Threw:
  assumes "fst (poll_try cfg e w) = Threw"
  shows "lastCheckedBlock (snd (poll_try cfg e w)) = lastCheckedBlock w"
proof (rule ccontr)
  assume "lastCheckedBlock (snd (poll_try cfg e w)) \<noteq> lastCheckedBlock w"
  then have "fst (poll_try cfg e w) = Done"
    by (rule poll_try_advanced) simp
  with assms show False by simp
qed

lemma scan_single:
  assumes "f \<le> c" and "c < f + 500"
  shows "scan q kind f c evs w =
     (map_option ((@) evs) (q (now w) f c), emit (QueryFilter kind f c) w)"
proof -
  have m: "min (f + 499) c = c"
    using assms by simp
  show ?thesis
    using assms(1)
    by (subst scan.simps, subst scan.simps) (simp add: Let_def m split: option.splits)
qed

lemma poll_try_eval:
  "poll_try cfg e w =
     (case blockNumberAt e (now w) of
        None \<Rightarrow> (Threw, emit GetBlockNumber w)
      | Some head \<Rightarrow>
          if head \<le> lastCheckedBlock w then (Done, emit GetBlockNumber w)
          else
            (let s1 = scan (logsBridge e) BridgeInitiated (lastCheckedBlock w + 1) head []
                        (emit GetBlockNumber w)
             in case fst s1 of
                  None \<Rightarrow> (Threw, snd s1)
                | Some bridgeEvents \<Rightarrow>
                   (let s2 = scan (logsRefund e) Refunded (lastCheckedBlock w + 1) head [] (snd s1)
                    in case fst s2 of
                         None \<Rightarrow> (Threw, snd s2)
                       | Some refundEvents \<Rightarrow>
                          (let p = processBridgeEvents cfg e bridgeEvents (snd s2)
                           in if fst p = Threw then (Threw, snd p)
                              else (Done, (processRefundEvents e refundEvents (snd p))
                                            \<lparr>lastCheckedBlock := head\<rparr>)))))"
  unfolding poll_try_def Let_def
  by (auto split: option.splits prod.splits outcome.splits simp: scan_cursor
           dest: scan_result)

section \<open>An exception inside the loop over the initiation events\<close>

lemma processBridgeEvents_append:
  "processBridgeEvents cfg e (xs @ ys) w =
     (if fst (processBridgeEvents cfg e xs w) = Threw then processBridgeEvents cfg e xs w
      else processBridgeEvents cfg e ys (snd (processBridgeEvents cfg e xs w)))"
proof (induction xs arbitrary: w)
  case Nil
  show ?case by simp
next
  case (Cons x xs)
  show ?case
    by (simp add: processBridgeEvents_Cons Cons.IH del: processBridgeEvents.simps(2))
qed

lemma processBridgeEvents_watcher_append:
  "processBridgeEvents_watcher e (xs @ ys) w =
     (if fst (processBridgeEvents_watcher e xs w) = Threw then processBridgeEvents_watcher e xs w
      else processBridgeEvents_watcher e ys (snd (processBridgeEvents_watcher e xs w)))"
proof (induction xs arbitrary: w)
  case Nil
  show ?case by simp
next
  case (Cons x xs)
  show ?case
    by (simp add: processBridgeEvents_watcher_Cons Cons.IH del: processBridgeEvents_watcher.simps(2))
qed

lemma processBridgeEvent_throws:
  assumes "\<not> selectError e (now w)"
    and "ev_transferId ev \<notin> tx_id ` set (store w)"
    and "transferAt e (Suc (now w)) (ev_transferId ev) = None"
  shows "processBridgeEvent cfg e ev w =
           (Threw, emits [Select (ev_transferId ev), GetTransfer (ev_transferId ev)] w)"
    and "processBridgeEvent_watcher e ev w =
           (Threw, emits [Select (ev_transferId ev), GetTransfer (ev_transferId ev)] w)"
  using assms by (simp_all add: processBridgeEvent_cases processBridgeEvent_watcher_cases Let_def)

lemma poll_try_watcher_eval:
  "poll_try_watcher e w =
     (case blockNumberAt e (now w) of
        None \<Rightarrow> (Threw, emit GetBlockNumber w)
      | Some head \<Rightarrow>
         (let s1 = scan (logsBridge e) BridgeInitiated (head - 1000) head [] (emit GetBlockNumber w)
          in case fst s1 of
               None \<Rightarrow> (Threw, snd s1)
             | Some bridgeEvents \<Rightarrow>
                (let s2 = scan (logsRefund e) Refunded (head - 1000) head [] (snd s1)
                 in case fst s2 of
                      None \<Rightarrow> (Threw, snd s2)
                    | Some refundEvents \<Rightarrow>
                       (let p = processBridgeEvents_watcher e bridgeEvents (snd s2)
                        in if fst p = Threw then (Threw, snd p)
                           else (Done, processRefundEvents e refundEvents (snd p))))))"
  unfolding poll_try_watcher_def Let_def
  by (auto split: option.splits prod.splits outcome.splits)

section \<open>The payouts of an iteration\<close>

lemma payout_actions_set:
  "set (filter is_payout (payout_actions e t u a n)) = {Payout t u a}"
  by (auto simp: payout_actions_def split: option.splits)

lemma pending_world_payouts:
  "set (filter is_payout (emitted w (pending_world cfg e ev w))) =
     {Payout (ev_transferId ev) (ev_user ev) (ev_bridgedAmount ev)}"
proof -
  let ?t = "ev_transferId ev" and ?u = "ev_user ev" and ?a = "ev_bridgedAmount ev"
  define w2 where "w2 = emits [Select ?t, GetTransfer ?t] w"
  define w3 where "w3 = snd (insert_row e (pending_row ev) w2)"
  define w4 where "w4 = emits (payout_actions e ?t ?u ?a (now w3)) w3"
  define w5 where "w5 = (case fst (payoutLoop e ?t ?u ?a 0 w3) of
                  None \<Rightarrow> w4
                | Some pb \<Rightarrow> snd (processPayoutCompletion cfg e ?t ?u ?a pb w4))"
  have pw: "pending_world cfg e ev w = emit (Sleep 1000) w5"
    unfolding pending_world_def Let_def w2_def w3_def w4_def w5_def by (rule refl)
  have l2: "later w w2" and e2: "emitted w w2 = [Select ?t, GetTransfer ?t]"
    by (simp_all add: w2_def)
  have l3: "later w2 w3" and e3: "emitted w2 w3 = [Insert (pending_row ev)]"
    by (simp_all add: w3_def insert_row_later insert_row_emitted)
  have l4: "later w3 w4" and e4: "emitted w3 w4 = payout_actions e ?t ?u ?a (now w3)"
    by (simp_all add: w4_def)
  have l5: "later w4 w5" and e5: "filter is_payout (emitted w4 w5) = []"
    by (simp_all add: w5_def processPayoutCompletion_later processPayoutCompletion_no_payout
          split: option.splits) (simp add: emitted_def)
  have l6: "later w5 (emit (Sleep 1000) w5)" by simp
  have l: "later w w3" "later w w4" "later w w5"
    using l2 l3 l4 l5 by (blast intro: later_trans)+
  have em: "emitted w (emit (Sleep 1000) w5) =
      [Select ?t, GetTransfer ?t, Insert (pending_row ev)] @ payout_actions e ?t ?u ?a (now w3)
        @ emitted w4 w5 @ [Sleep 1000]"
    using emitted_trans [OF l(3) l6] emitted_trans [OF l(2) l5] emitted_trans [OF l(1) l4]
      emitted_trans [OF l2 l3] e2 e3 e4 by simp
  show ?thesis
    using payout_actions_set [of e ?t ?u ?a "now w3"] by (simp add: pw em e5)
qed

lemma processBridgeEvent_payouts:
  "set (filter is_payout (emitted w (snd (processBridgeEvent cfg e ev w)))) =
     (if \<not> selectError e (now w) \<and> ev_transferId ev \<notin> tx_id ` set (store w)
         \<and> map_option tr_status (transferAt e (Suc (now w)) (ev_transferId ev)) = Some 0
      then {Payout (ev_transferId ev) (ev_user ev) (ev_bridgedAmount ev)} else {})"
  using pending_world_payouts [of w cfg e ev]
  by (auto simp: processBridgeEvent_cases Let_def split: option.splits)

lemma processBridgeEvent_watcher_payouts:
  "set (filter is_payout (emitted w (snd (processBridgeEvent_watcher e ev w)))) =
     (if \<not> selectError e (now w) \<and> ev_transferId ev \<notin> tx_id ` set (store w)
         \<and> map_option tr_status (transferAt e (Suc (now w)) (ev_transferId ev)) = Some 0
      then {Payout (ev_transferId ev) (ev_user ev) (ev_bridgedAmount ev)} else {})"
  by (auto simp: processBridgeEvent_watcher_cases Let_def watcher_pending_trace
           split: option.splits)

section \<open>The minimal watcher and the cursor\<close>

lemma emit_cursor_update:
  "emit a (w\<lparr>lastCheckedBlock := c\<rparr>) = (emit a w)\<lparr>lastCheckedBlock := c\<rparr>"
  by (simp add: emit_def)

lemma emits_cursor_update:
  "emits as (w\<lparr>lastCheckedBlock := c\<rparr>) = (emits as w)\<lparr>lastCheckedBlock := c\<rparr>"
  by (simp add: emits_def)

lemma now_cursor_update [simp]: "now (w\<lparr>lastCheckedBlock := c\<rparr>) = now w"
  by (simp add: now_def)

lemma scan_cursor_update:
  "scan q kind f h evs (w\<lparr>lastCheckedBlock := c\<rparr>) =
     (fst (scan q kind f h evs w), (snd (scan q kind f h evs w))\<lparr>lastCheckedBlock := c\<rparr>)"
proof (induction q kind f h evs w rule: scan.induct)
  case (1 q kind f h evs w)
  show ?case
  proof (cases "f \<le> h")
    case False
    then show ?thesis by (simp add: scan.simps)
  next
    case True
    show ?thesis
    proof (cases "q (now w) f (min (f + 499) h)")
      case None
      with True show ?thesis
        by (subst scan.simps, subst (2) scan.simps, subst (3) scan.simps)
           (simp add: Let_def emit_cursor_update)
    next
      case (Some ch)
      with True "1.IH"[OF True refl refl Some] show ?thesis
        by (subst scan.simps, subst (2) scan.simps, subst (3) scan.simps)
           (simp add: Let_def emit_cursor_update)
    qed
  qed
qed

lemma insert_row_cursor_update:
  "insert_row e r (w\<lparr>lastCheckedBlock := c\<rparr>) =
     (fst (insert_row e r w), (snd (insert_row e r w))\<lparr>lastCheckedBlock := c\<rparr>)"
  by (simp add: insert_row_def emit_def split: option.splits)

lemma processBridgeEvent_watcher_cursor_update:
  "processBridgeEvent_watcher e ev (w\<lparr>lastCheckedBlock := c\<rparr>) =
     (fst (processBridgeEvent_watcher e ev w),
      (snd (processBridgeEvent_watcher e ev w))\<lparr>lastCheckedBlock := c\<rparr>)"
  by (simp add: processBridgeEvent_watcher_cases Let_def emits_cursor_update emit_cursor_update
        insert_row_cursor_update split: option.splits)

lemma processBridgeEvents_watcher_cursor_update:
  "processBridgeEvents_watcher e evs (w\<lparr>lastCheckedBlock := c\<rparr>) =
     (fst (processBridgeEvents_watcher e evs w),
      (snd (processBridgeEvents_watcher e evs w))\<lparr>lastCheckedBlock := c\<rparr>)"
proof (induction evs arbitrary: w)
  case Nil
  show ?case by simp
next
  case (Cons ev evs)
  show ?case
    by (simp add: processBridgeEvents_watcher_Cons processBridgeEvent_watcher_cursor_update
          Cons.IH del: processBridgeEvents_watcher.simps(2))
qed

lemma processRefundEvent_cursor_update:
  "processRefundEvent e ev (w\<lparr>lastCheckedBlock := c\<rparr>) =
     (processRefundEvent e ev w)\<lparr>lastCheckedBlock := c\<rparr>"
  by (simp add: processRefundEvent_def Let_def emit_def)

lemma processRefundEvents_cursor_update:
  "processRefundEvents e evs (w\<lparr>lastCheckedBlock := c\<rparr>) =
     (processRefundEvents e evs w)\<lparr>lastCheckedBlock := c\<rparr>"
  by (induction evs arbitrary: w) (simp_all add: processRefundEvent_cursor_update)

lemma poll_try_watcher_cursor_update:
  "poll_try_watcher e (w\<lparr>lastCheckedBlock := c\<rparr>) =
     (fst (poll_try_watcher e w), (snd (poll_try_watcher e w))\<lparr>lastCheckedBlock := c\<rparr>)"
  by (simp add: poll_try_watcher_eval Let_def emit_cursor_update scan_cursor_update
        processBridgeEvents_watcher_cursor_update processRefundEvents_cursor_update
        split: option.splits)

lemma poll_try_watcher_cursor:
  "lastCheckedBlock (snd (poll_try_watcher e w)) = lastCheckedBlock w"
  by (simp add: poll_try_watcher_eval Let_def scan_cursor processBridgeEvents_watcher_cursor
        processRefundEvents_frame split: option.splits)

lemma processBridgeEvents_watcher_later:
  "later w (snd (processBridgeEvents_watcher e evs w))"
proof (induction evs arbitrary: w)
  case Nil
  show ?case by simp
next
  case (Cons ev evs)
  have l: "later w (snd (processBridgeEvent_watcher e ev w))"
    using processBridgeEvent_watcher_trace by blast
  show ?case
    using Cons.IH [of "snd (processBridgeEvent_watcher e ev w)"] l
    by (auto simp: processBridgeEvents_watcher_Cons intro: later_trans
             simp del: processBridgeEvents_watcher.simps(2))
qed

lemma poll_watcher_window:
  assumes "blockNumberAt e (now w) = Some head"
    and "fst (poll_try_watcher e w) = Done"
  shows "\<exists>rest. emitted w (poll_watcher e w) =
           GetBlockNumber # map (query_of BridgeInitiated) (chunks (head - 1000) head)
             @ map (query_of Refunded) (chunks (head - 1000) head) @ rest"
proof -
  let ?w1 = "emit GetBlockNumber w"
  let ?s1 = "scan (logsBridge e) BridgeInitiated (head - 1000) head [] ?w1"
  let ?s2 = "scan (logsRefund e) Refunded (head - 1000) head [] (snd ?s1)"
  obtain bridgeEvents where b: "fst ?s1 = Some bridgeEvents"
    using assms by (cases "fst ?s1") (simp_all add: poll_try_watcher_eval Let_def)
  obtain refundEvents where r: "fst ?s2 = Some refundEvents"
    using assms b by (cases "fst ?s2") (simp_all add: poll_try_watcher_eval Let_def)
  let ?p = "processBridgeEvents_watcher e bridgeEvents (snd ?s2)"
  have d: "fst ?p \<noteq> Threw"
    using assms b r by (auto simp: poll_try_watcher_eval Let_def split: if_splits)
  have pw: "poll_watcher e w = processRefundEvents e refundEvents (snd ?p)"
    using assms b r d by (simp add: poll_watcher_def poll_try_watcher_eval Let_def)
  have t1: "trace (snd ?s1) = trace ?w1 @ map (query_of BridgeInitiated) (chunks (head - 1000) head)"
    using b by (rule scan_trace)
  have t2: "trace (snd ?s2) = trace (snd ?s1) @ map (query_of Refunded) (chunks (head - 1000) head)"
    using r by (rule scan_trace)
  have "later (snd ?s2) (snd ?p)"
    by (rule processBridgeEvents_watcher_later)
  moreover have "later (snd ?p) (processRefundEvents e refundEvents (snd ?p))"
    using processRefundEvents_frame by blast
  ultimately have "later (snd ?s2) (poll_watcher e w)"
    unfolding pw by (rule later_trans)
  then have "trace (poll_watcher e w) = trace (snd ?s2) @ emitted (snd ?s2) (poll_watcher e w)"
    by (rule later_trace)
  then have "emitted w (poll_watcher e w) =
           GetBlockNumber # map (query_of BridgeInitiated) (chunks (head - 1000) head)
             @ map (query_of Refunded) (chunks (head - 1000) head)
             @ emitted (snd ?s2) (poll_watcher e w)"
    by (simp add: t1 t2 emitted_def [of w])
  then show ?thesis by blast
qed

lemma chunks_single: "f \<le> c \<Longrightarrow> c < f + 500 \<Longrightarrow> chunks f c = [(f, c)]"
  by (subst chunks.simps, subst chunks.simps) (simp add: Let_def)

lemma main_watcher_cursor:
  "blockNumberAt e (now w) = Some head \<Longrightarrow>
   main_watcher e w = Some ((emit GetBlockNumber w)\<lparr>lastCheckedBlock := head - 1000\<rparr>)"
  by (simp add: main_watcher_def getStartingBlock_watcher_def)

section \<open>The refund loop\<close>

lemma processRefundEvent_store:
  "store (processRefundEvent e ev w) =
     (if updateError e (now w) then store w
      else update_eq (rf_transferId ev) (\<lambda>r. r\<lparr>status := ''refunded''\<rparr>) (store w))"
  by (simp add: processRefundEvent_def Let_def)

lemma refunded_kept:
  assumes "\<forall>r\<in>set (store w). tx_id r \<in> S \<longrightarrow> status r = ''refunded''"
    and "\<not> updateError e (now w)"
  shows "\<forall>r\<in>set (store (processRefundEvent e ev w)).
           tx_id r \<in> insert (rf_transferId ev) S \<longrightarrow> status r = ''refunded''"
  using assms by (auto simp: processRefundEvent_store update_eq_def)

lemma processRefundEvents_refunded:
  assumes "\<forall>n. \<not> updateError e n"
    and "\<forall>r\<in>set (store w). tx_id r \<in> S \<longrightarrow> status r = ''refunded''"
  shows "\<forall>r\<in>set (store (processRefundEvents e evs w)).
           tx_id r \<in> S \<union> rf_transferId ` set evs \<longrightarrow> status r = ''refunded''"
  using assms(2)
proof (induction evs arbitrary: w S)
  case Nil
  then show ?case by simp
next
  case (Cons ev evs)
  have "\<forall>r\<in>set (store (processRefundEvent e ev w)).
           tx_id r \<in> insert (rf_transferId ev) S \<longrightarrow> status r = ''refunded''"
    using refunded_kept [OF Cons.prems] assms(1) by blast
  from Cons.IH [OF this] show ?case by simp
qed

section \<open>The claims\<close>

text \<open>
  Claim C1, as amended. What keeps a transfer from being paid out again is the existence
  check, together with the status read: the iteration for an initiation event submits a
  payout exactly when the select returned without error and found no row for the
  identifier and the chain reports the transfer as Pending, and then only payouts of that
  transfer to its user for its bridged amount. An event whose identifier is found in the
  store, or whose select errs, is skipped after the select with no write at all. The
  answer of the insert plays no part in this.
\<close>

theorem payout_guarded_by_existence_check:
  "set (filter is_payout (emitted w (snd (processBridgeEvent cfg e ev w)))) =
     (if \<not> selectError e (now w) \<and> ev_transferId ev \<notin> tx_id ` set (store w)
         \<and> map_option tr_status (transferAt e (Suc (now w)) (ev_transferId ev)) = Some 0
      then {Payout (ev_transferId ev) (ev_user ev) (ev_bridgedAmount ev)} else {})
   \<and> set (filter is_payout (emitted w (snd (processBridgeEvent_watcher e ev w)))) =
     (if \<not> selectError e (now w) \<and> ev_transferId ev \<notin> tx_id ` set (store w)
         \<and> map_option tr_status (transferAt e (Suc (now w)) (ev_transferId ev)) = Some 0
      then {Payout (ev_transferId ev) (ev_user ev) (ev_bridgedAmount ev)} else {})
   \<and> (selectError e (now w) \<or> ev_transferId ev \<in> tx_id ` set (store w) \<longrightarrow>
        processBridgeEvent cfg e ev w = (Done, emits [Select (ev_transferId ev)] w)
        \<and> processBridgeEvent_watcher e ev w = (Done, emits [Select (ev_transferId ev)] w))"
  using processBridgeEvent_payouts [of w cfg e ev] processBridgeEvent_watcher_payouts [of w e ev]
  by (simp add: processBridgeEvent_cases processBridgeEvent_watcher_cases)

theorem payout_guarded_by_existence_check_witness:
  "ev_transferId ev_aa \<in> tx_id ` set (store stored_aa)
   \<and> processBridgeEvent cfg0 env0 ev_aa stored_aa = (Done, emits [Select ''0xaa''] stored_aa)
   \<and> processBridgeEvent_watcher env0 ev_aa stored_aa = (Done, emits [Select ''0xaa''] stored_aa)
   \<and> set (filter is_payout (emitted stored_aa (snd (processBridgeEvent cfg0 env0 ev_aa stored_aa)))) = {}
   \<and> set (filter is_payout (emitted world0 (snd (processBridgeEvent cfg0 env0 ev_aa world0)))) =
       {Payout ''0xaa'' ''0xu1'' 100}"
proof -
  have m: "ev_transferId ev_aa \<in> tx_id ` set (store stored_aa)"
    by (simp add: stored_aa_def pending_row_def)
  have n: "\<not> selectError env0 (now world0) \<and> ev_transferId ev_aa \<notin> tx_id ` set (store world0)
      \<and> map_option tr_status (transferAt env0 (Suc (now world0)) (ev_transferId ev_aa)) = Some 0"
    by (simp add: env0_def world0_def pending0_def)
  note a = payout_guarded_by_existence_check [of stored_aa cfg0 env0 ev_aa]
  note b = payout_guarded_by_existence_check [of world0 cfg0 env0 ev_aa]
  from a m have "processBridgeEvent cfg0 env0 ev_aa stored_aa =
        (Done, emits [Select (ev_transferId ev_aa)] stored_aa)
      \<and> processBridgeEvent_watcher env0 ev_aa stored_aa =
        (Done, emits [Select (ev_transferId ev_aa)] stored_aa)"
    by blast
  moreover from a m
  have "set (filter is_payout (emitted stored_aa (snd (processBridgeEvent cfg0 env0 ev_aa stored_aa)))) = {}"
    by simp
  moreover from b n
  have "set (filter is_payout (emitted world0 (snd (processBridgeEvent cfg0 env0 ev_aa world0)))) =
      {Payout (ev_transferId ev_aa) (ev_user ev_aa) (ev_bridgedAmount ev_aa)}"
    by simp
  ultimately show ?thesis
    using m by (simp add: ev_aa_def)
qed

text \<open>
  The claim as stated fails. When the store answers the insert with a conflict, the
  iteration goes on: the payout is submitted, in both services. And since nothing is
  then stored, the minimal watcher, which scans the same window on every tick, pays the
  same transfers out again on the next tick.
\<close>

theorem insert_conflict_counterexample:
  "fst (insert_row env_conflict (pending_row ev_aa)
         (emits [Select ''0xaa'', GetTransfer ''0xaa''] world0)) = Some Conflict
   \<and> emitted world0 (snd (processBridgeEvent_watcher env_conflict ev_aa world0)) =
       [Select ''0xaa'', GetTransfer ''0xaa'', Insert (pending_row ev_aa),
        Payout ''0xaa'' ''0xu1'' 100]
   \<and> set (filter is_payout (emitted world0 (snd (processBridgeEvent cfg0 env_conflict ev_aa world0)))) =
       {Payout ''0xaa'' ''0xu1'' 100}
   \<and> filter is_payout (trace (poll_watcher env_conflict (poll_watcher env_conflict world0))) =
       [Payout ''0xaa'' ''0xu1'' 100, Payout ''0xbb'' ''0xu2'' 20,
        Payout ''0xaa'' ''0xu1'' 100, Payout ''0xbb'' ''0xu2'' 20]"
proof -
  have c: "insertError env_conflict = (\<lambda>t. Some Conflict)"
    and s: "selectError env_conflict = (\<lambda>t. False)"
    and g: "transferAt env_conflict = (\<lambda>t i. Some pending0)"
    and l: "logsBridge env_conflict = (\<lambda>t a b. Some (if a \<le> 1 \<and> 1 \<le> b then [ev_aa, ev_bb] else []))"
    and r: "logsRefund env_conflict = (\<lambda>t a b. Some (if a \<le> 1 \<and> 1 \<le> b then [rf_cc] else []))"
    and b: "blockNumberAt env_conflict = (\<lambda>t. Some 1)"
    and u: "updateError env_conflict = (\<lambda>t. False)"
    by (simp_all add: env_conflict_def env0_def)
  have w0: "store world0 = []" "trace world0 = []"
    by (simp_all add: world0_def)
  have ins: "insert_row env_conflict row w = (Some Conflict, emit (Insert row) w)" for row w
    by (simp add: insert_row_def c)
  have ev: "processBridgeEvent_watcher env_conflict x w =
      (Done, emits [Select (ev_transferId x), GetTransfer (ev_transferId x), Insert (pending_row x),
                    Payout (ev_transferId x) (ev_user x) (ev_bridgedAmount x)] w)"
    if "store w = []" for x w
    using that
    by (simp add: processBridgeEvent_watcher_cases Let_def s g ins pending0_def
        emit_as_emits emits_emits)
  have tick: "trace (poll_watcher env_conflict w) = trace w @
      [GetBlockNumber, QueryFilter BridgeInitiated 0 1, QueryFilter Refunded 0 1,
       Select ''0xaa'', GetTransfer ''0xaa'', Insert (pending_row ev_aa), Payout ''0xaa'' ''0xu1'' 100,
       Select ''0xbb'', GetTransfer ''0xbb'', Insert (pending_row ev_bb), Payout ''0xbb'' ''0xu2'' 20,
       UpdateRefunded ''0xcc'']
     \<and> store (poll_watcher env_conflict w) = []"
    if "store w = []" for w
    using that
    by (simp add: poll_watcher_def poll_try_watcher_eval scan_single l r b u ev
        processBridgeEvents_watcher_Cons processRefundEvent_def Let_def update_eq_def
        emit_as_emits emits_emits ev_aa_def ev_bb_def rf_cc_def
        del: processBridgeEvents_watcher.simps(2))
  have t1: "trace (poll_watcher env_conflict world0) =
      [GetBlockNumber, QueryFilter BridgeInitiated 0 1, QueryFilter Refunded 0 1,
       Select ''0xaa'', GetTransfer ''0xaa'', Insert (pending_row ev_aa), Payout ''0xaa'' ''0xu1'' 100,
       Select ''0xbb'', GetTransfer ''0xbb'', Insert (pending_row ev_bb), Payout ''0xbb'' ''0xu2'' 20,
       UpdateRefunded ''0xcc'']"
    and s1: "store (poll_watcher env_conflict world0) = []"
    using tick [of world0] by (simp_all add: w0)
  have t2: "filter is_payout (trace (poll_watcher env_conflict (poll_watcher env_conflict world0))) =
       [Payout ''0xaa'' ''0xu1'' 100, Payout ''0xbb'' ''0xu2'' 20,
        Payout ''0xaa'' ''0xu1'' 100, Payout ''0xbb'' ''0xu2'' 20]"
    using tick [OF s1] by (simp add: t1)
  have e1: "emitted world0 (snd (processBridgeEvent_watcher env_conflict ev_aa world0)) =
       [Select ''0xaa'', GetTransfer ''0xaa'', Insert (pending_row ev_aa),
        Payout ''0xaa'' ''0xu1'' 100]"
    using ev [of world0 ev_aa] by (simp add: w0 ev_aa_def)
  have e2: "set (filter is_payout (emitted world0 (snd (processBridgeEvent cfg0 env_conflict ev_aa world0)))) =
       {Payout ''0xaa'' ''0xu1'' 100}"
    using processBridgeEvent_payouts [of world0 cfg0 env_conflict ev_aa]
    by (simp add: s g w0 pending0_def ev_aa_def)
  show ?thesis
    using e1 e2 t2 by (simp add: ins)
qed

text \<open>
  Claim C2. The payout of one transfer is attempted at most three times. After the first
  failed attempt the loop waits 2000 ms, after the second 4000 ms, after the third it does
  not wait and gives up; a confirmed attempt ends the loop at once. The whole iteration
  for an initiation event submits at most three payouts.
\<close>

theorem payout_retry_policy:
  "payoutLoop e t u a 0 w =
     (case receipt (payoutTx e (now w)) of
        Some b \<Rightarrow> (Some b, emits [Payout t u a] w)
      | None \<Rightarrow>
         (case receipt (payoutTx e (now w + 2)) of
            Some b \<Rightarrow> (Some b, emits [Payout t u a, Sleep 2000, Payout t u a] w)
          | None \<Rightarrow> (receipt (payoutTx e (now w + 4)),
                      emits [Payout t u a, Sleep 2000, Payout t u a, Sleep 4000, Payout t u a] w)))
   \<and> length (filter is_payout (emitted w (snd (processBridgeEvent cfg e ev w)))) \<le> 3"
  using payoutLoop_0 [of e t u a w] processBridgeEvent_trace [of w cfg e ev] by simp

theorem payout_retry_policy_witness:
  "payoutLoop (env0\<lparr>payoutTx := \<lambda>t. SendFailed\<rparr>) ''0xaa'' ''0xu1'' 100 0 world0 =
     (None, emits [Payout ''0xaa'' ''0xu1'' 100, Sleep 2000, Payout ''0xaa'' ''0xu1'' 100,
                   Sleep 4000, Payout ''0xaa'' ''0xu1'' 100] world0)"
  using payout_retry_policy [of "env0\<lparr>payoutTx := \<lambda>t. SendFailed\<rparr>" "''0xaa''" "''0xu1''" 100
      world0 cfg0 ev_aa]
  by (simp add: receipt_def)

text \<open>
  Claim C3. A tick of the unified service that ends in its \<^verbatim>\<open>catch\<close>, because the read of
  the head, a log query or the processing threw, leaves the block cursor as it was, so the
  next tick scans the same range again. The cursor changes only on the path on which the
  head was read, both scans returned, every initiation event of the range went through
  its iteration (each made its existence check) and every refund event made its update;
  it is then the head that was read. A tick that ends normally with a head above the
  cursor sets the cursor to that head.
\<close>

theorem cursor_advances_only_after_processing:
  "(fst (poll_try cfg e w) = Threw \<longrightarrow> lastCheckedBlock (poll cfg e w) = lastCheckedBlock w)
   \<and> (fst (poll_try cfg e w) = Done \<and> blockNumberAt e (now w) = Some h \<and> lastCheckedBlock w < h
        \<longrightarrow> lastCheckedBlock (poll cfg e w) = h)
   \<and> (lastCheckedBlock (poll cfg e w) \<noteq> lastCheckedBlock w \<longrightarrow>
        (\<exists>head bridgeEvents refundEvents w2 w3 w4.
           blockNumberAt e (now w) = Some head \<and> lastCheckedBlock w < head
           \<and> scan (logsBridge e) BridgeInitiated (lastCheckedBlock w + 1) head []
                (emit GetBlockNumber w) = (Some bridgeEvents, w2)
           \<and> scan (logsRefund e) Refunded (lastCheckedBlock w + 1) head [] w2 =
                (Some refundEvents, w3)
           \<and> processBridgeEvents cfg e bridgeEvents w3 = (Done, w4)
           \<and> poll cfg e w = (processRefundEvents e refundEvents w4)\<lparr>lastCheckedBlock := head\<rparr>
           \<and> (\<forall>ev\<in>set bridgeEvents. Select (ev_transferId ev) \<in> set (emitted w3 w4))
           \<and> (\<forall>rf\<in>set refundEvents.
                 UpdateRefunded (rf_transferId rf) \<in> set (emitted w4 (poll cfg e w)))))"
proof (intro conjI impI)
  assume "fst (poll_try cfg e w) = Threw"
  then show "lastCheckedBlock (poll cfg e w) = lastCheckedBlock w"
    by (simp add: poll_def poll_try_Threw)
next
  assume "fst (poll_try cfg e w) = Done \<and> blockNumberAt e (now w) = Some h \<and> lastCheckedBlock w < h"
  then show "lastCheckedBlock (poll cfg e w) = h"
    by (simp add: poll_def poll_try_Done)
next
  assume "lastCheckedBlock (poll cfg e w) \<noteq> lastCheckedBlock w"
  then have "lastCheckedBlock (snd (poll_try cfg e w)) \<noteq> lastCheckedBlock w"
    by (simp add: poll_def)
  then obtain head bridgeEvents refundEvents w2 w3 w4 where
    h: "blockNumberAt e (now w) = Some head" "lastCheckedBlock w < head"
    and s1: "scan (logsBridge e) BridgeInitiated (lastCheckedBlock w + 1) head []
           (emit GetBlockNumber w) = (Some bridgeEvents, w2)"
    and s2: "scan (logsRefund e) Refunded (lastCheckedBlock w + 1) head [] w2 = (Some refundEvents, w3)"
    and p: "processBridgeEvents cfg e bridgeEvents w3 = (Done, w4)"
    and r: "poll_try cfg e w = (Done, (processRefundEvents e refundEvents w4)\<lparr>lastCheckedBlock := head\<rparr>)"
    by (rule poll_try_advanced)
  have q: "poll cfg e w = (processRefundEvents e refundEvents w4)\<lparr>lastCheckedBlock := head\<rparr>"
    using r by (simp add: poll_def)
  have a: "\<forall>ev\<in>set bridgeEvents. Select (ev_transferId ev) \<in> set (emitted w3 w4)"
    using processBridgeEvents_all [of cfg e bridgeEvents w3] p by simp
  have "emitted w4 (poll cfg e w) = emitted w4 (processRefundEvents e refundEvents w4)"
    by (simp add: q emitted_def)
  then have b: "\<forall>rf\<in>set refundEvents. UpdateRefunded (rf_transferId rf) \<in> set (emitted w4 (poll cfg e w))"
    by (simp add: processRefundEvents_emitted)
  from h s1 s2 p q a b
  show "\<exists>head bridgeEvents refundEvents w2 w3 w4.
           blockNumberAt e (now w) = Some head \<and> lastCheckedBlock w < head
           \<and> scan (logsBridge e) BridgeInitiated (lastCheckedBlock w + 1) head []
                (emit GetBlockNumber w) = (Some bridgeEvents, w2)
           \<and> scan (logsRefund e) Refunded (lastCheckedBlock w + 1) head [] w2 =
                (Some refundEvents, w3)
           \<and> processBridgeEvents cfg e bridgeEvents w3 = (Done, w4)
           \<and> poll cfg e w = (processRefundEvents e refundEvents w4)\<lparr>lastCheckedBlock := head\<rparr>
           \<and> (\<forall>ev\<in>set bridgeEvents. Select (ev_transferId ev) \<in> set (emitted w3 w4))
           \<and> (\<forall>rf\<in>set refundEvents.
                 UpdateRefunded (rf_transferId rf) \<in> set (emitted w4 (poll cfg e w)))"
    by blast
qed

theorem cursor_advances_only_after_processing_witness:
  "fst (poll_try cfg0 env0 world0) = Done
   \<and> blockNumberAt env0 (now world0) = Some 1
   \<and> lastCheckedBlock world0 = 0
   \<and> lastCheckedBlock (poll cfg0 env0 world0) = 1
   \<and> (\<exists>bridgeEvents refundEvents w2 w3 w4.
           scan (logsBridge env0) BridgeInitiated (lastCheckedBlock world0 + 1) 1 []
                (emit GetBlockNumber world0) = (Some bridgeEvents, w2)
           \<and> scan (logsRefund env0) Refunded (lastCheckedBlock world0 + 1) 1 [] w2 =
                (Some refundEvents, w3)
           \<and> processBridgeEvents cfg0 env0 bridgeEvents w3 = (Done, w4)
           \<and> poll cfg0 env0 world0 = (processRefundEvents env0 refundEvents w4)\<lparr>lastCheckedBlock := 1\<rparr>)
   \<and> fst (poll_try cfg0 (env0\<lparr>logsRefund := \<lambda>t a b. None\<rparr>) world0) = Threw
   \<and> lastCheckedBlock (poll cfg0 (env0\<lparr>logsRefund := \<lambda>t a b. None\<rparr>) world0) = 0"
proof -
  have d: "fst (poll_try cfg0 env0 world0) = Done"
    by (simp add: poll_try_eval scan_single processBridgeEvents_Cons processBridgeEvent_fst
        processBridgeEvent_keys env0_def world0_def ev_aa_def ev_bb_def pending0_def image_set
        del: processBridgeEvents.simps(2) set_map)
  have b: "blockNumberAt env0 (now world0) = Some 1" and c: "lastCheckedBlock world0 = 0"
    by (simp_all add: env0_def world0_def)
  have t: "fst (poll_try cfg0 (env0\<lparr>logsRefund := \<lambda>t a b. None\<rparr>) world0) = Threw"
    by (simp add: poll_try_eval scan_single env0_def world0_def)
  note ok = cursor_advances_only_after_processing [of cfg0 env0 world0 1]
  from ok d b c have one: "lastCheckedBlock (poll cfg0 env0 world0) = 1" by simp
  with c have "lastCheckedBlock (poll cfg0 env0 world0) \<noteq> lastCheckedBlock world0" by simp
  with ok b have ex: "\<exists>bridgeEvents refundEvents w2 w3 w4.
           scan (logsBridge env0) BridgeInitiated (lastCheckedBlock world0 + 1) 1 []
                (emit GetBlockNumber world0) = (Some bridgeEvents, w2)
           \<and> scan (logsRefund env0) Refunded (lastCheckedBlock world0 + 1) 1 [] w2 =
                (Some refundEvents, w3)
           \<and> processBridgeEvents cfg0 env0 bridgeEvents w3 = (Done, w4)
           \<and> poll cfg0 env0 world0 = (processRefundEvents env0 refundEvents w4)\<lparr>lastCheckedBlock := 1\<rparr>"
    by fastforce
  from cursor_advances_only_after_processing
    [of cfg0 "env0\<lparr>logsRefund := \<lambda>t a b. None\<rparr>" world0 1] t c
  have "lastCheckedBlock (poll cfg0 (env0\<lparr>logsRefund := \<lambda>t a b. None\<rparr>) world0) = 0" by simp
  then show ?thesis using d b c t one ex by simp
qed

text \<open>
  Claim C4, as amended. The call of \<^verbatim>\<open>getTransfer\<close> in the loop over the initiation events
  is not inside a \<^verbatim>\<open>try\<close> of its own: when it throws, the exception reaches the
  \<^verbatim>\<open>catch\<close> of the whole tick. The tick ends there, after the existence check and the
  failed read of that event: the remaining initiation events and all refund events of the
  tick are not processed, and in the unified service the cursor is not advanced, so the
  next tick scans the same range again. In the minimal watcher the tick ends in the same
  way.
\<close>

theorem getTransfer_failure_aborts_tick:
  "(blockNumberAt e (now w) = Some head \<and> lastCheckedBlock w < head
    \<and> scan (logsBridge e) BridgeInitiated (lastCheckedBlock w + 1) head []
         (emit GetBlockNumber w) = (Some (before @ ev # rest), w2)
    \<and> scan (logsRefund e) Refunded (lastCheckedBlock w + 1) head [] w2 = (Some refundEvents, w3)
    \<and> processBridgeEvents cfg e before w3 = (Done, w4)
    \<and> \<not> selectError e (now w4) \<and> ev_transferId ev \<notin> tx_id ` set (store w4)
    \<and> transferAt e (Suc (now w4)) (ev_transferId ev) = None
    \<longrightarrow> poll cfg e w = emits [Select (ev_transferId ev), GetTransfer (ev_transferId ev)] w4
        \<and> lastCheckedBlock (poll cfg e w) = lastCheckedBlock w)
   \<and> (blockNumberAt e (now w) = Some head
    \<and> scan (logsBridge e) BridgeInitiated (head - 1000) head []
         (emit GetBlockNumber w) = (Some (before @ ev # rest), w2)
    \<and> scan (logsRefund e) Refunded (head - 1000) head [] w2 = (Some refundEvents, w3)
    \<and> processBridgeEvents_watcher e before w3 = (Done, w4)
    \<and> \<not> selectError e (now w4) \<and> ev_transferId ev \<notin> tx_id ` set (store w4)
    \<and> transferAt e (Suc (now w4)) (ev_transferId ev) = None
    \<longrightarrow> poll_watcher e w = emits [Select (ev_transferId ev), GetTransfer (ev_transferId ev)] w4)"
proof (intro conjI impI)
  assume a: "blockNumberAt e (now w) = Some head \<and> lastCheckedBlock w < head
    \<and> scan (logsBridge e) BridgeInitiated (lastCheckedBlock w + 1) head []
         (emit GetBlockNumber w) = (Some (before @ ev # rest), w2)
    \<and> scan (logsRefund e) Refunded (lastCheckedBlock w + 1) head [] w2 = (Some refundEvents, w3)
    \<and> processBridgeEvents cfg e before w3 = (Done, w4)
    \<and> \<not> selectError e (now w4) \<and> ev_transferId ev \<notin> tx_id ` set (store w4)
    \<and> transferAt e (Suc (now w4)) (ev_transferId ev) = None"
  then have t: "processBridgeEvent cfg e ev w4 =
      (Threw, emits [Select (ev_transferId ev), GetTransfer (ev_transferId ev)] w4)"
    by (simp add: processBridgeEvent_throws)
  with a have "processBridgeEvents cfg e (before @ ev # rest) w3 =
      (Threw, emits [Select (ev_transferId ev), GetTransfer (ev_transferId ev)] w4)"
    by (simp add: processBridgeEvents_append)
  with a show p: "poll cfg e w = emits [Select (ev_transferId ev), GetTransfer (ev_transferId ev)] w4"
    by (simp add: poll_def poll_try_eval)
  have "fst (poll_try cfg e w) = Threw"
    using a \<open>processBridgeEvents cfg e (before @ ev # rest) w3 = _\<close>
    by (simp add: poll_try_eval)
  then show "lastCheckedBlock (poll cfg e w) = lastCheckedBlock w"
    by (simp add: poll_def poll_try_Threw)
next
  assume a: "blockNumberAt e (now w) = Some head
    \<and> scan (logsBridge e) BridgeInitiated (head - 1000) head []
         (emit GetBlockNumber w) = (Some (before @ ev # rest), w2)
    \<and> scan (logsRefund e) Refunded (head - 1000) head [] w2 = (Some refundEvents, w3)
    \<and> processBridgeEvents_watcher e before w3 = (Done, w4)
    \<and> \<not> selectError e (now w4) \<and> ev_transferId ev \<notin> tx_id ` set (store w4)
    \<and> transferAt e (Suc (now w4)) (ev_transferId ev) = None"
  then have t: "processBridgeEvent_watcher e ev w4 =
      (Threw, emits [Select (ev_transferId ev), GetTransfer (ev_transferId ev)] w4)"
    by (simp add: processBridgeEvent_throws)
  with a have "processBridgeEvents_watcher e (before @ ev # rest) w3 =
      (Threw, emits [Select (ev_transferId ev), GetTransfer (ev_transferId ev)] w4)"
    by (simp add: processBridgeEvents_watcher_append)
  with a show "poll_watcher e w = emits [Select (ev_transferId ev), GetTransfer (ev_transferId ev)] w4"
    by (simp add: poll_watcher_def poll_try_watcher_eval)
qed

theorem getTransfer_failure_aborts_tick_witness:
  "poll cfg0 env_aa_unreadable world0 =
     emits [Select ''0xaa'', GetTransfer ''0xaa'']
       (emits [GetBlockNumber, QueryFilter BridgeInitiated 1 1, QueryFilter Refunded 1 1] world0)
   \<and> lastCheckedBlock (poll cfg0 env_aa_unreadable world0) = lastCheckedBlock world0
   \<and> blockNumberAt env_aa_unreadable (now world0) = Some 1"
proof -
  let ?w3 = "emits [GetBlockNumber, QueryFilter BridgeInitiated 1 1, QueryFilter Refunded 1 1] world0"
  let ?w2 = "emits [GetBlockNumber, QueryFilter BridgeInitiated 1 1] world0"
  have h: "blockNumberAt env_aa_unreadable (now world0) = Some 1 \<and> lastCheckedBlock world0 < 1"
    by (simp add: env_aa_unreadable_def env0_def world0_def)
  have s1: "scan (logsBridge env_aa_unreadable) BridgeInitiated (lastCheckedBlock world0 + 1) 1 []
         (emit GetBlockNumber world0) = (Some ([] @ ev_aa # [ev_bb]), ?w2)"
    by (simp add: scan_single env_aa_unreadable_def env0_def world0_def emit_def emits_def)
  have s2: "scan (logsRefund env_aa_unreadable) Refunded (lastCheckedBlock world0 + 1) 1 [] ?w2 =
      (Some [rf_cc], ?w3)"
    by (simp add: scan_single env_aa_unreadable_def env0_def world0_def emit_def emits_def)
  have p: "processBridgeEvents cfg0 env_aa_unreadable [] ?w3 = (Done, ?w3)"
    by simp
  have g: "\<not> selectError env_aa_unreadable (now ?w3) \<and> ev_transferId ev_aa \<notin> tx_id ` set (store ?w3)
      \<and> transferAt env_aa_unreadable (Suc (now ?w3)) (ev_transferId ev_aa) = None"
    by (simp add: env_aa_unreadable_def env0_def world0_def ev_aa_def)
  from getTransfer_failure_aborts_tick [of env_aa_unreadable world0 1 "[]" ev_aa "[ev_bb]" ?w2
      "[rf_cc]" ?w3 cfg0 ?w3] h s1 s2 p g
  have "poll cfg0 env_aa_unreadable world0 =
      emits [Select (ev_transferId ev_aa), GetTransfer (ev_transferId ev_aa)] ?w3
    \<and> lastCheckedBlock (poll cfg0 env_aa_unreadable world0) = lastCheckedBlock world0"
    by blast
  then show ?thesis using h by (simp add: ev_aa_def)
qed

text \<open>
  The claim as stated fails: with two initiation events in the range and the status read
  of the first one failing, the tick stops after that read. The second event is never
  looked at, the refund event is not processed, and the cursor stays below the head.
\<close>

theorem getTransfer_failure_counterexample:
  "processBridgeEvents cfg0 env_aa_unreadable [ev_aa, ev_bb] world0 =
     (Threw, emits [Select ''0xaa'', GetTransfer ''0xaa''] world0)
   \<and> trace (poll cfg0 env_aa_unreadable world0) =
       [GetBlockNumber, QueryFilter BridgeInitiated 1 1, QueryFilter Refunded 1 1,
        Select ''0xaa'', GetTransfer ''0xaa'']
   \<and> blockNumberAt env_aa_unreadable 0 = Some 1
   \<and> lastCheckedBlock (poll cfg0 env_aa_unreadable world0) = 0
   \<and> trace (poll_watcher env_aa_unreadable world0) =
       [GetBlockNumber, QueryFilter BridgeInitiated 0 1, QueryFilter Refunded 0 1,
        Select ''0xaa'', GetTransfer ''0xaa'']"
proof -
  have e: "processBridgeEvent cfg0 env_aa_unreadable ev_aa w =
      (Threw, emits [Select ''0xaa'', GetTransfer ''0xaa''] w)"
    if "store w = []" for w
    using that processBridgeEvent_throws(1) [of env_aa_unreadable w ev_aa cfg0]
    by (simp add: env_aa_unreadable_def env0_def ev_aa_def)
  have ew: "processBridgeEvent_watcher env_aa_unreadable ev_aa w =
      (Threw, emits [Select ''0xaa'', GetTransfer ''0xaa''] w)"
    if "store w = []" for w
    using that processBridgeEvent_throws(2) [of env_aa_unreadable w ev_aa]
    by (simp add: env_aa_unreadable_def env0_def ev_aa_def)
  have l: "logsBridge env_aa_unreadable = (\<lambda>t a b. Some (if a \<le> 1 \<and> 1 \<le> b then [ev_aa, ev_bb] else []))"
    and r: "logsRefund env_aa_unreadable = (\<lambda>t a b. Some (if a \<le> 1 \<and> 1 \<le> b then [rf_cc] else []))"
    and b: "blockNumberAt env_aa_unreadable = (\<lambda>t. Some 1)"
    by (simp_all add: env_aa_unreadable_def env0_def)
  have w0: "store world0 = []" "lastCheckedBlock world0 = 0" "now world0 = 0" "trace world0 = []"
    by (simp_all add: world0_def now_def)
  have e0: "processBridgeEvent cfg0 env_aa_unreadable ev_aa world0 =
      (Threw, emits [Select ''0xaa'', GetTransfer ''0xaa''] world0)"
    by (simp add: e w0)
  have 1: "processBridgeEvents cfg0 env_aa_unreadable [ev_aa, ev_bb] world0 =
     (Threw, emits [Select ''0xaa'', GetTransfer ''0xaa''] world0)"
    using e0 by simp
  let ?w3 = "emits [GetBlockNumber, QueryFilter BridgeInitiated 1 1, QueryFilter Refunded 1 1] world0"
  have e3: "processBridgeEvent cfg0 env_aa_unreadable ev_aa ?w3 =
      (Threw, emits [Select ''0xaa'', GetTransfer ''0xaa''] ?w3)"
    by (simp add: e w0)
  have p3: "processBridgeEvents cfg0 env_aa_unreadable [ev_aa, ev_bb] ?w3 =
     (Threw, emits [Select ''0xaa'', GetTransfer ''0xaa''] ?w3)"
    using e3 by simp
  have 2: "poll cfg0 env_aa_unreadable world0 =
      emits [GetBlockNumber, QueryFilter BridgeInitiated 1 1, QueryFilter Refunded 1 1,
        Select ''0xaa'', GetTransfer ''0xaa''] world0"
    using p3
    by (simp add: poll_def poll_try_eval scan_single l r b w0 emit_as_emits emits_emits
          del: processBridgeEvents.simps)
  let ?v3 = "emits [GetBlockNumber, QueryFilter BridgeInitiated 0 1, QueryFilter Refunded 0 1] world0"
  have f3: "processBridgeEvent_watcher env_aa_unreadable ev_aa ?v3 =
      (Threw, emits [Select ''0xaa'', GetTransfer ''0xaa''] ?v3)"
    by (simp add: ew w0)
  have q3: "processBridgeEvents_watcher env_aa_unreadable [ev_aa, ev_bb] ?v3 =
     (Threw, emits [Select ''0xaa'', GetTransfer ''0xaa''] ?v3)"
    using f3 by simp
  have 3: "poll_watcher env_aa_unreadable world0 =
      emits [GetBlockNumber, QueryFilter BridgeInitiated 0 1, QueryFilter Refunded 0 1,
        Select ''0xaa'', GetTransfer ''0xaa''] world0"
    using q3
    by (simp add: poll_watcher_def poll_try_watcher_eval scan_single l r b w0
        emit_as_emits emits_emits del: processBridgeEvents_watcher.simps)
  show ?thesis
    by (simp add: 1 2 3 b w0 del: processBridgeEvents.simps)
qed

text \<open>
  Claim C5, as amended. The signature submitted with \<^verbatim>\<open>complete\<close> is made with the signer
  key over the hash of the packed transfer identifier, the user and the bridged amount
  that \<^verbatim>\<open>getTransfer\<close> returned, and the address of the L2 bridge contract, in this order:
  the contract of the source chain, on which \<^verbatim>\<open>complete\<close> is called, not the payout
  contract of the destination chain.
\<close>

theorem completion_digest_binds_L2_contract:
  assumes "Complete t' sgs signers \<in> set (emitted w (snd (processPayoutCompletion cfg e t u a pb w)))"
  shows "\<exists>tr. transferAt e (now w) t = Some tr \<and> t' = t \<and> signers = [AUTHORIZED_SIGNER] \<and>
           sgs = [PersonalSign (SIGNER_KEY cfg)
                    (Keccak256 [Bytes32 (if take 2 t = ''0x'' then t else ''0x'' @ t),
                                Address (tr_user tr), Uint256 (tr_bridgedAmount tr),
                                Address (L2_ADDRESS cfg)])]"
  using assms
  unfolding processPayoutCompletion_def callCompleteOnL2_def updateSupabaseComplete_def
    signMessage_def rawHash_def Let_def
  by (auto simp: emitted_def split: option.splits tx_result.splits if_splits)

theorem completion_digest_binds_L2_contract_witness:
  "Complete ''0xaa''
     [PersonalSign ''0xk2'' (Keccak256 [Bytes32 ''0xaa'', Address ''0xu1'', Uint256 100, Address ''0xL2''])]
     [AUTHORIZED_SIGNER]
     \<in> set (emitted world0 (snd (processPayoutCompletion cfg0 env0 ''0xaa'' ''0xu1'' 100 9 world0)))
   \<and> (\<exists>tr. transferAt env0 (now world0) ''0xaa'' = Some tr \<and>
        [PersonalSign ''0xk2'' (Keccak256 [Bytes32 ''0xaa'', Address ''0xu1'', Uint256 100, Address ''0xL2''])] =
        [PersonalSign (SIGNER_KEY cfg0)
           (Keccak256 [Bytes32 ''0xaa'', Address (tr_user tr), Uint256 (tr_bridgedAmount tr),
                       Address (L2_ADDRESS cfg0)])])"
proof -
  have h: "Complete ''0xaa''
     [PersonalSign ''0xk2'' (Keccak256 [Bytes32 ''0xaa'', Address ''0xu1'', Uint256 100, Address ''0xL2''])]
     [AUTHORIZED_SIGNER]
     \<in> set (emitted world0 (snd (processPayoutCompletion cfg0 env0 ''0xaa'' ''0xu1'' 100 9 world0)))"
    by (simp add: processPayoutCompletion_def callCompleteOnL2_def updateSupabaseComplete_def
        signMessage_def rawHash_def Let_def emitted_def env0_def cfg0_def pending0_def world0_def
        now_def emit_def)
  from completion_digest_binds_L2_contract [OF h] h show ?thesis by simp
qed

text \<open>
  The claim as stated fails: in a run that submits \<^verbatim>\<open>complete\<close>, no submitted signature
  is over the digest made with the address of the L1 payout contract.
\<close>

theorem completion_digest_counterexample:
  "Complete ''0xaa''
     [PersonalSign (SIGNER_KEY cfg0) (rawHash ''0xaa'' ''0xu1'' 100 (L1_ADDRESS cfg0))]
     [AUTHORIZED_SIGNER]
     \<notin> set (trace (snd (processPayoutCompletion cfg0 env0 ''0xaa'' ''0xu1'' 100 9 world0)))
   \<and> Complete ''0xaa''
     [PersonalSign (SIGNER_KEY cfg0) (rawHash ''0xaa'' ''0xu1'' 100 (L2_ADDRESS cfg0))]
     [AUTHORIZED_SIGNER]
     \<in> set (trace (snd (processPayoutCompletion cfg0 env0 ''0xaa'' ''0xu1'' 100 9 world0)))"
  by (simp add: processPayoutCompletion_def callCompleteOnL2_def updateSupabaseComplete_def
        signMessage_def rawHash_def Let_def env0_def cfg0_def pending0_def world0_def
        now_def emit_def)

text \<open>
  Claim C6. The store never holds two rows for one identifier: a table without duplicate
  identifiers stays so through every tick of either service, whatever the chains and the
  store answer, and through the processing of the same events a second time. An initiation
  event whose identifier is in the store makes the existence check and nothing else:
  no insert, no payout, no completion, the store as it was.
\<close>

theorem rescan_is_idempotent:
  "(distinct (map tx_id (store w)) \<longrightarrow>
      distinct (map tx_id (store (poll cfg e w)))
      \<and> distinct (map tx_id (store (poll_watcher e w)))
      \<and> distinct (map tx_id (store (snd (processBridgeEvents cfg e evs
                                          (snd (processBridgeEvents cfg e evs w))))))
      \<and> distinct (map tx_id (store (snd (processBridgeEvents_watcher e evs
                                          (snd (processBridgeEvents_watcher e evs w)))))))
   \<and> (ev_transferId ev \<in> tx_id ` set (store w) \<longrightarrow>
        processBridgeEvent cfg e ev w = (Done, emits [Select (ev_transferId ev)] w)
        \<and> processBridgeEvent_watcher e ev w = (Done, emits [Select (ev_transferId ev)] w))"
  using poll_distinct [of w cfg e] poll_watcher_distinct [of w e]
    processBridgeEvents_distinct [of "snd (processBridgeEvents cfg e evs w)" cfg e evs]
    processBridgeEvents_distinct [of w cfg e evs]
    processBridgeEvents_watcher_distinct [of "snd (processBridgeEvents_watcher e evs w)" e evs]
    processBridgeEvents_watcher_distinct [of w e evs]
  by (simp add: processBridgeEvent_cases processBridgeEvent_watcher_cases)

theorem rescan_is_idempotent_witness:
  "distinct (map tx_id (store world0))
   \<and> distinct (map tx_id (store (snd (processBridgeEvents cfg0 env0 [ev_aa, ev_bb]
                  (snd (processBridgeEvents cfg0 env0 [ev_aa, ev_bb] world0))))))
   \<and> ev_transferId ev_aa \<in> tx_id ` set (store (snd (processBridgeEvents cfg0 env0 [ev_aa, ev_bb] world0)))
   \<and> processBridgeEvent cfg0 env0 ev_aa (snd (processBridgeEvents cfg0 env0 [ev_aa, ev_bb] world0)) =
       (Done, emits [Select ''0xaa''] (snd (processBridgeEvents cfg0 env0 [ev_aa, ev_bb] world0)))"
proof -
  let ?w1 = "snd (processBridgeEvents cfg0 env0 [ev_aa, ev_bb] world0)"
  have d: "distinct (map tx_id (store world0))"
    by (simp add: world0_def)
  have k: "map tx_id (store ?w1) = [''0xaa'', ''0xbb'']"
    by (simp add: processBridgeEvents_Cons processBridgeEvent_fst processBridgeEvent_keys
        env0_def ev_aa_def ev_bb_def pending0_def world0_def image_set
        del: processBridgeEvents.simps(2) set_map)
  have "set (map tx_id (store ?w1)) = {''0xaa'', ''0xbb''}"
    by (simp only: k) auto
  then have m: "ev_transferId ev_aa \<in> tx_id ` set (store ?w1)"
    by (simp add: ev_aa_def)
  note t = rescan_is_idempotent [of world0 cfg0 env0 "[ev_aa, ev_bb]" ev_aa]
  note u = rescan_is_idempotent [of ?w1 cfg0 env0 "[ev_aa, ev_bb]" ev_aa]
  from t d have "distinct (map tx_id (store (snd (processBridgeEvents cfg0 env0 [ev_aa, ev_bb] ?w1))))"
    by blast
  moreover from u m have "processBridgeEvent cfg0 env0 ev_aa ?w1 =
      (Done, emits [Select (ev_transferId ev_aa)] ?w1)"
    by blast
  ultimately show ?thesis
    using d m by (simp add: ev_aa_def)
qed

text \<open>
  Claim C7. A refund event makes one call, the update of the status to \<open>refunded\<close> for
  its identifier, with no read of the store or of the chain before it. When the store
  accepts the update, every row with that identifier has status \<open>refunded\<close>, whatever its
  status was, and the other rows are as before. After the refund loop of a tick whose
  updates are all accepted, every row named by a refund event of the tick is refunded.
\<close>

theorem refund_overwrites_status:
  "emitted w (processRefundEvent e ev w) = [UpdateRefunded (rf_transferId ev)]
   \<and> (\<not> updateError e (now w) \<longrightarrow>
        length (store (processRefundEvent e ev w)) = length (store w)
        \<and> (\<forall>i<length (store w).
             store (processRefundEvent e ev w) ! i =
               (if tx_id (store w ! i) = rf_transferId ev
                then (store w ! i)\<lparr>status := ''refunded''\<rparr> else store w ! i)))
   \<and> ((\<forall>n. \<not> updateError e n) \<longrightarrow>
        (\<forall>r\<in>set (store (processRefundEvents e evs w)).
           tx_id r \<in> rf_transferId ` set evs \<longrightarrow> status r = ''refunded''))"
proof -
  have "emitted w (processRefundEvent e ev w) = [UpdateRefunded (rf_transferId ev)]"
    by (simp add: processRefundEvent_def Let_def emitted_def)
  moreover have "\<not> updateError e (now w) \<longrightarrow>
        length (store (processRefundEvent e ev w)) = length (store w)
        \<and> (\<forall>i<length (store w).
             store (processRefundEvent e ev w) ! i =
               (if tx_id (store w ! i) = rf_transferId ev
                then (store w ! i)\<lparr>status := ''refunded''\<rparr> else store w ! i))"
    by (simp add: processRefundEvent_store update_eq_def)
  moreover have "(\<forall>n. \<not> updateError e n) \<longrightarrow>
        (\<forall>r\<in>set (store (processRefundEvents e evs w)).
           tx_id r \<in> rf_transferId ` set evs \<longrightarrow> status r = ''refunded'')"
    using processRefundEvents_refunded [of e w "{}" evs] by simp
  ultimately show ?thesis by blast
qed

theorem refund_overwrites_status_witness:
  "\<not> updateError env0 (now (world0\<lparr>store := [completed_cc]\<rparr>))
   \<and> store (processRefundEvent env0 rf_cc (world0\<lparr>store := [completed_cc]\<rparr>)) =
       [completed_cc\<lparr>status := ''refunded''\<rparr>]
   \<and> emitted (world0\<lparr>store := [completed_cc]\<rparr>)
        (processRefundEvent env0 rf_cc (world0\<lparr>store := [completed_cc]\<rparr>)) =
       [UpdateRefunded ''0xcc'']"
proof -
  let ?w = "world0\<lparr>store := [completed_cc]\<rparr>"
  have h: "\<not> updateError env0 (now ?w)" by (simp add: env0_def)
  note t = refund_overwrites_status [of ?w env0 rf_cc "[rf_cc]"]
  from t h have l: "length (store (processRefundEvent env0 rf_cc ?w)) = length (store ?w)"
    and n: "\<forall>i<length (store ?w). store (processRefundEvent env0 rf_cc ?w) ! i =
               (if tx_id (store ?w ! i) = rf_transferId rf_cc
                then (store ?w ! i)\<lparr>status := ''refunded''\<rparr> else store ?w ! i)"
    by blast+
  from l obtain r where r: "store (processRefundEvent env0 rf_cc ?w) = [r]"
    by (cases "store (processRefundEvent env0 rf_cc ?w)") (auto simp: world0_def)
  from n have "store (processRefundEvent env0 rf_cc ?w) ! 0 = completed_cc\<lparr>status := ''refunded''\<rparr>"
    by (simp add: world0_def completed_cc_def rf_cc_def)
  with r have "store (processRefundEvent env0 rf_cc ?w) = [completed_cc\<lparr>status := ''refunded''\<rparr>]"
    by simp
  moreover from t have "emitted ?w (processRefundEvent env0 rf_cc ?w) = [UpdateRefunded ''0xcc'']"
    by (simp add: rf_cc_def)
  ultimately show ?thesis using h by simp
qed

text \<open>
  Claim C8. When the status read again just before \<^verbatim>\<open>complete\<close> is not Pending, the
  completion step ends by an early \<^verbatim>\<open>return\<close>, not through its \<^verbatim>\<open>catch\<close>: status 1 and
  status 2 have their own branch, any other non-zero status is skipped as unknown. The
  step has then made its two reads of the chain and nothing else: no \<^verbatim>\<open>complete\<close>
  transaction, no update of the store.
\<close>

theorem completion_guard_skips:
  assumes "transferAt e (now w) t = Some tr"
    and "\<not> signThrows e (Suc (now w))"
    and "transferAt e (Suc (now w)) t = Some doubleCheck"
    and "tr_status doubleCheck \<noteq> 0"
  shows "processPayoutCompletion cfg e t u a pb w =
           (if tr_status doubleCheck = 1 then SkippedCompleted
            else if tr_status doubleCheck = 2 then SkippedRefunded
            else SkippedUnknown,
            emits [GetTransfer t, GetTransfer t] w)
         \<and> filter is_write (emitted w (snd (processPayoutCompletion cfg e t u a pb w))) = []
         \<and> store (snd (processPayoutCompletion cfg e t u a pb w)) = store w"
proof -
  have r: "processPayoutCompletion cfg e t u a pb w =
           (if tr_status doubleCheck = 1 then SkippedCompleted
            else if tr_status doubleCheck = 2 then SkippedRefunded
            else SkippedUnknown,
            emits [GetTransfer t, GetTransfer t] w)"
    using assms
    by (simp add: processPayoutCompletion_def signMessage_def Let_def emit_as_emits emits_emits)
  then show ?thesis by simp
qed

theorem completion_guard_skips_witness:
  "processPayoutCompletion cfg0 (env0\<lparr>transferAt := \<lambda>n i. Some (pending0\<lparr>tr_status := 2\<rparr>)\<rparr>)
     ''0xaa'' ''0xu1'' 100 9 world0 =
     (SkippedRefunded, emits [GetTransfer ''0xaa'', GetTransfer ''0xaa''] world0)"
  using completion_guard_skips [of "env0\<lparr>transferAt := \<lambda>n i. Some (pending0\<lparr>tr_status := 2\<rparr>)\<rparr>"
      world0 "''0xaa''" "pending0\<lparr>tr_status := 2\<rparr>" "pending0\<lparr>tr_status := 2\<rparr>" cfg0 "''0xu1''" 100 9]
  by (simp add: env0_def pending0_def)

text \<open>
  Claim C9. The scanner splits the requested range \<open>[fromBlock, currentBlock]\<close> into
  consecutive sub-ranges of 500 blocks (the last one may be shorter), asks for them in
  ascending order and concatenates the answers in that order. A range of exactly 500
  blocks is one sub-query, a range of 501 blocks is two.
\<close>

theorem scan_splits_into_500_block_chunks:
  "fst (scan q kind f c evs w) = map_option ((@) evs) (concat_queries q (now w) (chunks f c))
   \<and> (fst (scan q kind f c evs w) \<noteq> None \<longrightarrow>
        emitted w (snd (scan q kind f c evs w)) = map (query_of kind) (chunks f c))
   \<and> chunks f (f + 499) = [(f, f + 499)]
   \<and> chunks f (f + 500) = [(f, f + 499), (f + 500, f + 500)]
   \<and> length (chunks f c) = (c + 1 - f + 499) div 500
   \<and> concat (map (\<lambda>(a, b). [a..<b + 1]) (chunks f c)) = [f..<c + 1]
   \<and> (\<forall>(a, b)\<in>set (butlast (chunks f c)). b + 1 - a = 500)
   \<and> (\<forall>(a, b)\<in>set (chunks f c). a \<le> b \<and> b + 1 - a \<le> 500)"
proof -
  have "fst (scan q kind f c evs w) \<noteq> None \<longrightarrow>
        emitted w (snd (scan q kind f c evs w)) = map (query_of kind) (chunks f c)"
    using scan_trace [of q kind f c evs w] by (auto simp: emitted_def)
  moreover have "\<forall>(a, b)\<in>set (butlast (chunks f c)). b + 1 - a = 500"
    using chunks_full by blast
  moreover have "\<forall>(a, b)\<in>set (chunks f c). a \<le> b \<and> b + 1 - a \<le> 500"
    using chunks_size by blast
  ultimately show ?thesis
    using scan_events chunks_one chunks_two chunks_length chunks_cover by blast
qed

theorem scan_splits_into_500_block_chunks_witness:
  "fst (scan (logsBridge env0) BridgeInitiated 2 502 [] world0) \<noteq> None
   \<and> emitted world0 (snd (scan (logsBridge env0) BridgeInitiated 2 502 [] world0)) =
       [QueryFilter BridgeInitiated 2 501, QueryFilter BridgeInitiated 502 502]
   \<and> length (chunks 2 502) = 2"
proof -
  have c: "chunks 2 502 = [(2, 501), (502, 502)]"
    using chunks_two [of 2] by simp
  have s: "fst (scan (logsBridge env0) BridgeInitiated 2 502 [] world0) \<noteq> None"
    by (simp add: scan_events c env0_def)
  note t = scan_splits_into_500_block_chunks
    [of "logsBridge env0" BridgeInitiated 2 502 "[]" world0]
  from t s have e: "emitted world0 (snd (scan (logsBridge env0) BridgeInitiated 2 502 [] world0)) =
      map (query_of BridgeInitiated) (chunks 2 502)"
    by blast
  from t have l: "length (chunks 2 502) = (502 + 1 - 2 + 499) div 500"
    by blast
  show ?thesis
    using s e l by (simp add: c query_of_def)
qed

text \<open>
  Claim C10. In the minimal watcher the block cursor is set once, at startup, to the head
  minus 1000 (not below 0). A tick neither reads nor writes it: run from a world that
  differs only in the cursor, the tick makes the same calls and leaves the same store, and
  the cursor after the tick is the cursor before it. Every tick that gets through its
  scans has asked for the whole window from the head minus 1000 to the head, for both
  event kinds, also when the head is not above the cursor. Whether a re-observed
  initiation event is acted upon depends on the store alone: found there, it is skipped
  after the select; not found (and the select without error, the transfer pending), it is
  inserted and paid out.
\<close>

theorem watcher_scans_fixed_window:
  "poll_watcher e (w\<lparr>lastCheckedBlock := c\<rparr>) = (poll_watcher e w)\<lparr>lastCheckedBlock := c\<rparr>
   \<and> lastCheckedBlock (poll_watcher e w) = lastCheckedBlock w
   \<and> (blockNumberAt e (now w) = Some head \<and> fst (poll_try_watcher e w) = Done \<longrightarrow>
        (\<exists>rest. emitted w (poll_watcher e w) =
           GetBlockNumber # map (query_of BridgeInitiated) (chunks (head - 1000) head)
             @ map (query_of Refunded) (chunks (head - 1000) head) @ rest))
   \<and> (blockNumberAt e (now w) = Some head \<longrightarrow>
        map_option lastCheckedBlock (main_watcher e w) = Some (head - 1000))
   \<and> (ev_transferId ev \<in> tx_id ` set (store w) \<longrightarrow>
        processBridgeEvent_watcher e ev w = (Done, emits [Select (ev_transferId ev)] w))
   \<and> (\<not> selectError e (now w) \<and> ev_transferId ev \<notin> tx_id ` set (store w)
        \<and> map_option tr_status (transferAt e (Suc (now w)) (ev_transferId ev)) = Some 0 \<longrightarrow>
        emitted w (snd (processBridgeEvent_watcher e ev w)) =
          [Select (ev_transferId ev), GetTransfer (ev_transferId ev), Insert (pending_row ev),
           Payout (ev_transferId ev) (ev_user ev) (ev_bridgedAmount ev)])"
proof -
  have "poll_watcher e (w\<lparr>lastCheckedBlock := c\<rparr>) = (poll_watcher e w)\<lparr>lastCheckedBlock := c\<rparr>"
    by (simp add: poll_watcher_def poll_try_watcher_cursor_update)
  moreover have "lastCheckedBlock (poll_watcher e w) = lastCheckedBlock w"
    by (simp add: poll_watcher_def poll_try_watcher_cursor)
  moreover have "blockNumberAt e (now w) = Some head \<and> fst (poll_try_watcher e w) = Done \<longrightarrow>
        (\<exists>rest. emitted w (poll_watcher e w) =
           GetBlockNumber # map (query_of BridgeInitiated) (chunks (head - 1000) head)
             @ map (query_of Refunded) (chunks (head - 1000) head) @ rest)"
    using poll_watcher_window [of e w head] by blast
  moreover have "blockNumberAt e (now w) = Some head \<longrightarrow>
        map_option lastCheckedBlock (main_watcher e w) = Some (head - 1000)"
    by (simp add: main_watcher_cursor)
  moreover have "ev_transferId ev \<in> tx_id ` set (store w) \<longrightarrow>
        processBridgeEvent_watcher e ev w = (Done, emits [Select (ev_transferId ev)] w)"
    by (simp add: processBridgeEvent_watcher_cases)
  moreover have "\<not> selectError e (now w) \<and> ev_transferId ev \<notin> tx_id ` set (store w)
        \<and> map_option tr_status (transferAt e (Suc (now w)) (ev_transferId ev)) = Some 0 \<longrightarrow>
        emitted w (snd (processBridgeEvent_watcher e ev w)) =
          [Select (ev_transferId ev), GetTransfer (ev_transferId ev), Insert (pending_row ev),
           Payout (ev_transferId ev) (ev_user ev) (ev_bridgedAmount ev)]"
    by (auto simp: processBridgeEvent_watcher_cases Let_def watcher_pending_trace)
  ultimately show ?thesis by blast
qed

theorem watcher_scans_fixed_window_witness:
  "blockNumberAt env0 (now ahead5) = Some 1
   \<and> lastCheckedBlock ahead5 = 5
   \<and> fst (poll_try_watcher env0 ahead5) = Done
   \<and> lastCheckedBlock (poll_watcher env0 ahead5) = 5
   \<and> poll_watcher env0 ahead5 = (poll_watcher env0 world0)\<lparr>lastCheckedBlock := 5\<rparr>
   \<and> (\<exists>rest. emitted ahead5 (poll_watcher env0 ahead5) =
         GetBlockNumber # QueryFilter BridgeInitiated 0 1 # QueryFilter Refunded 0 1 # rest)
   \<and> map_option lastCheckedBlock (main_watcher env0 ahead5) = Some 0
   \<and> emitted ahead5 (snd (processBridgeEvent_watcher env0 ev_aa ahead5)) =
        [Select ''0xaa'', GetTransfer ''0xaa'', Insert (pending_row ev_aa),
         Payout ''0xaa'' ''0xu1'' 100]"
proof -
  have h: "blockNumberAt env0 (now ahead5) = Some 1" and c: "lastCheckedBlock ahead5 = 5"
    and s: "store ahead5 = []"
    by (simp_all add: env0_def ahead5_def world0_def)
  have d: "fst (poll_try_watcher env0 ahead5) = Done"
    by (simp add: poll_try_watcher_eval scan_single processBridgeEvents_watcher_Cons
        processBridgeEvent_watcher_fst processBridgeEvent_watcher_keys s
        env0_def ev_aa_def ev_bb_def pending0_def image_set
        del: processBridgeEvents_watcher.simps(2) set_map)
  have g: "\<not> selectError env0 (now ahead5) \<and> ev_transferId ev_aa \<notin> tx_id ` set (store ahead5)
        \<and> map_option tr_status (transferAt env0 (Suc (now ahead5)) (ev_transferId ev_aa)) = Some 0"
    by (simp add: s env0_def pending0_def)
  note t = watcher_scans_fixed_window [where e = env0 and w = world0 and c = 5 and head = 1 and ev = ev_aa]
  note u = watcher_scans_fixed_window [where e = env0 and w = ahead5 and c = 5 and head = 1 and ev = ev_aa]
  from t have 1: "poll_watcher env0 ahead5 = (poll_watcher env0 world0)\<lparr>lastCheckedBlock := 5\<rparr>"
    by (simp add: ahead5_def)
  from u c have 2: "lastCheckedBlock (poll_watcher env0 ahead5) = 5"
    by simp
  from u h d have "\<exists>rest. emitted ahead5 (poll_watcher env0 ahead5) =
           GetBlockNumber # map (query_of BridgeInitiated) (chunks (1 - 1000) 1)
             @ map (query_of Refunded) (chunks (1 - 1000) 1) @ rest"
    by blast
  then have 3: "\<exists>rest. emitted ahead5 (poll_watcher env0 ahead5) =
         GetBlockNumber # QueryFilter BridgeInitiated 0 1 # QueryFilter Refunded 0 1 # rest"
    by (simp add: chunks_single query_of_def)
  from u h have 4: "map_option lastCheckedBlock (main_watcher env0 ahead5) = Some 0"
    by simp
  from u g have 5: "emitted ahead5 (snd (processBridgeEvent_watcher env0 ev_aa ahead5)) =
          [Select (ev_transferId ev_aa), GetTransfer (ev_transferId ev_aa), Insert (pending_row ev_aa),
           Payout (ev_transferId ev_aa) (ev_user ev_aa) (ev_bridgedAmount ev_aa)]"
    by blast
  show ?thesis
    using h c d 1 2 3 4 5 by (simp add: ev_aa_def)
qed

end
